theory Spec2Isabelle
  imports Main "HOL-Library.Multiset"
begin

section \<open>Memory blocks\<close>

text \<open>
  \<^verbatim>\<open>struct MemoryBlock { int start; int size; bool free; }\<close> (main.cpp, MemoryAllocator.h,
  FirstFitAllocator.h). The field \<^verbatim>\<open>size\<close> is named \<open>size_b\<close> here, since \<open>size\<close> is a
  constant of HOL. The C++ \<^verbatim>\<open>int\<close> fields are modelled by \<open>int\<close>: on the states the
  allocators reach from a positive total size with positive requests every sum and
  difference the code computes lies between 0 and the total size, except for
  \<^verbatim>\<open>size + 16\<close> in FirstFitAllocator.h, which is why requests to that allocator are
  bounded by \<open>INT_MAX - 16\<close> below.
\<close>

record MemoryBlock =
  start :: int
  size_b :: int
  free :: bool

text \<open>The constructor \<^verbatim>\<open>MemoryBlock(s, sz, f)\<close> of FirstFitAllocator.h.\<close>

abbreviation Block :: "int \<Rightarrow> int \<Rightarrow> bool \<Rightarrow> MemoryBlock" where
  "Block s sz f \<equiv> \<lparr>start = s, size_b = sz, free = f\<rparr>"

definition INT_MAX :: int where
  "INT_MAX = 2147483647"

section \<open>The list allocator of main.cpp\<close>

text \<open>
  \<^verbatim>\<open>std::list<MemoryBlock> blocks\<close>: a handle is the address of a list node, and a node
  keeps its address as long as it is in the list. A node is modelled as a pair of its
  address and its block. The addresses come from the heap, which may hand the address of
  an erased node to a later node: \<open>heap s n\<close> is the address the heap gives to the
  \<open>n\<close>-th node the list asks for, and \<open>next_node\<close> counts the requests. The heap is
  not code of the repository; nothing is assumed about it except, in the reachable
  states below, that it never hands out the address of a node that is in the list.
  A handle is \<open>nat option\<close>, \<open>None\<close> being \<^verbatim>\<open>nullptr\<close>.
\<close>

type_synonym node = "nat \<times> MemoryBlock"

record ListArena =
  blocks :: "node list"
  totalSize :: int
  next_node :: nat
  heap :: "nat \<Rightarrow> nat"

text \<open>
  \<^verbatim>\<open>MemoryAllocator(int total)\<close>: one free block \<open>(0, total)\<close>, whatever \<open>total\<close> is, in
  the first node the heap \<open>hp\<close> hands out.
\<close>

definition MemoryAllocator :: "(nat \<Rightarrow> nat) \<Rightarrow> int \<Rightarrow> ListArena" where
  "MemoryAllocator hp tot =
     \<lparr>blocks = [(hp 0, \<lparr>start = 0, size_b = tot, free = True\<rparr>)], totalSize = tot,
      next_node = 1, heap = hp\<rparr>"

definition FirstFitAllocator :: "(nat \<Rightarrow> nat) \<Rightarrow> int \<Rightarrow> ListArena" where
  "FirstFitAllocator hp tot = MemoryAllocator hp tot"

text \<open>
  An example of a heap that hands out the addresses of erased nodes again, the one
  erased last first (as the allocator of the GNU C library does for chunks of one size):
  the nodes 1 and 2 are handed out a second time, at requests 4 and 3.
\<close>

definition reusing_heap :: "nat \<Rightarrow> nat" where
  "reusing_heap n = (if n < 6 then [0, 1, 2, 2, 1, 3] ! n else n)"

text \<open>
  The scan of \<^verbatim>\<open>allocate\<close> over the list: at the first free node that is large enough
  the node is shrunk to the request and marked allocated, and when something remains
  (\<^verbatim>\<open>remaining > 0\<close>) a new free node is inserted right after it.
  The result is the handle and the new list, or \<open>None\<close> when the scan reaches the end.
\<close>

fun allocate_scan :: "nat \<Rightarrow> int \<Rightarrow> node list \<Rightarrow> (nat \<times> node list) option" where
  "allocate_scan fresh sz [] = None"
| "allocate_scan fresh sz ((a, b) # rest) =
     (if free b \<and> size_b b \<ge> sz then
        (let remaining = size_b b - sz;
             startAddr = start b;
             b' = b\<lparr>free := False, size_b := sz\<rparr>
         in Some (a, (a, b') #
              (if remaining > 0
               then (fresh, \<lparr>start = startAddr + sz, size_b = remaining, free = True\<rparr>) # rest
               else rest)))
      else map_option (\<lambda>(h, r). (h, (a, b) # r)) (allocate_scan fresh sz rest))"

definition allocate :: "ListArena \<Rightarrow> int \<Rightarrow> nat option \<times> ListArena" where
  "allocate s sz =
     (case allocate_scan (heap s (next_node s)) sz (blocks s) of
        None \<Rightarrow> (None, s)
      | Some (h, bs) \<Rightarrow> (Some h, s\<lparr>blocks := bs, next_node := Suc (next_node s)\<rparr>))"

text \<open>
  \<^verbatim>\<open>deallocate\<close>: the loop looks for the node whose address is the handle. There it sets
  \<^verbatim>\<open>free\<close>, merges the node into a free predecessor (the node is erased and the
  predecessor becomes the current node), and then merges a free successor into the
  current node. \<open>merge_next\<close> is the second merge; \<open>deallocate_after\<close> is the scan with
  the predecessor at hand.
\<close>

fun merge_next :: "node \<Rightarrow> node list \<Rightarrow> node list" where
  "merge_next (a, b) [] = [(a, b)]"
| "merge_next (a, b) ((a', b') # rest) =
     (if free b' then (a, b\<lparr>size_b := size_b b + size_b b'\<rparr>) # rest
      else (a, b) # (a', b') # rest)"

fun deallocate_after :: "nat \<Rightarrow> node \<Rightarrow> node list \<Rightarrow> node list" where
  "deallocate_after h prv [] = [prv]"
| "deallocate_after h (pa, pb) ((a, b) # rest) =
     (if a = h then
        (if free pb then merge_next (pa, pb\<lparr>size_b := size_b pb + size_b b\<rparr>) rest
         else (pa, pb) # merge_next (a, b\<lparr>free := True\<rparr>) rest)
      else (pa, pb) # deallocate_after h (a, b) rest)"

fun deallocate_scan :: "nat \<Rightarrow> node list \<Rightarrow> node list" where
  "deallocate_scan h [] = []"
| "deallocate_scan h ((a, b) # rest) =
     (if a = h then merge_next (a, b\<lparr>free := True\<rparr>) rest
      else deallocate_after h (a, b) rest)"

definition deallocate :: "ListArena \<Rightarrow> nat option \<Rightarrow> ListArena" where
  "deallocate s block =
     (case block of
        None \<Rightarrow> s
      | Some h \<Rightarrow> s\<lparr>blocks := deallocate_scan h (blocks s)\<rparr>)"

text \<open>The blocks in list order, without the node addresses.\<close>

definition snapshot :: "ListArena \<Rightarrow> MemoryBlock list" where
  "snapshot s = map snd (blocks s)"

section \<open>The vector allocator of FirstFitAllocator.h\<close>

text \<open>
  \<^verbatim>\<open>std::vector<MemoryBlock> blocks\<close>. \<^verbatim>\<open>allocate\<close> returns \<^verbatim>\<open>&blocks[i]\<close>, a pointer
  into the vector's storage. The vector moves its storage when \<^verbatim>\<open>push_back\<close> finds it
  full, and every pointer into the old storage dangles from then on. So the state holds
  the \<open>capacity\<close> of the storage and a number \<open>storage\<close> that changes whenever the
  storage moves, and a handle is a pair of the storage it points into and the slot
  index; \<open>None\<close> is \<^verbatim>\<open>nullptr\<close>. Reading through a handle yields whatever block the slot
  holds at that moment.
\<close>

record VecArena =
  totalMemory :: int
  blocks_v :: "MemoryBlock list"
  capacity :: nat
  storage :: nat

text \<open>
  The capacity of a full vector after \<^verbatim>\<open>push_back\<close>. This is library code, not code of
  the repository: GNU libstdc++ and LLVM libc++ double the capacity (1, 2, 4, 8, ...).
\<close>

definition grow :: "nat \<Rightarrow> nat" where
  "grow c = (if c = 0 then 1 else 2 * c)"

text \<open>\<^verbatim>\<open>blocks.push_back(b)\<close>: the storage moves when the vector is full.\<close>

definition push_back :: "VecArena \<Rightarrow> MemoryBlock \<Rightarrow> VecArena" where
  "push_back s b =
     (if length (blocks_v s) < capacity s
      then s\<lparr>blocks_v := blocks_v s @ [b]\<rparr>
      else s\<lparr>blocks_v := blocks_v s @ [b], capacity := grow (capacity s),
             storage := Suc (storage s)\<rparr>)"

definition FirstFitAllocator_v :: "int \<Rightarrow> VecArena" where
  "FirstFitAllocator_v memorySize =
     push_back \<lparr>totalMemory = memorySize, blocks_v = [], capacity = 0, storage = 0\<rparr>
       \<lparr>start = 0, size_b = memorySize, free = True\<rparr>"

text \<open>The index at which the \<^verbatim>\<open>for\<close> loop of \<^verbatim>\<open>allocate\<close> stops, in storage order.\<close>

fun first_fit :: "int \<Rightarrow> MemoryBlock list \<Rightarrow> nat option" where
  "first_fit sz [] = None"
| "first_fit sz (b # bs) =
     (if free b \<and> size_b b \<ge> sz then Some 0 else map_option Suc (first_fit sz bs))"

definition allocate_v :: "VecArena \<Rightarrow> int \<Rightarrow> (nat \<times> nat) option \<times> VecArena" where
  "allocate_v s sz =
     (case first_fit sz (blocks_v s) of
        None \<Rightarrow> (None, s)
      | Some i \<Rightarrow>
          (let block = blocks_v s ! i in
           if size_b block \<le> sz + 16
           then (Some (storage s, i), s\<lparr>blocks_v := (blocks_v s)[i := block\<lparr>free := False\<rparr>]\<rparr>)
           else
             (let newStart = start block + sz;
                  newSize = size_b block - sz;
                  s' = push_back
                         (s\<lparr>blocks_v := (blocks_v s)[i := block\<lparr>size_b := sz, free := False\<rparr>]\<rparr>)
                         \<lparr>start = newStart, size_b = newSize, free = True\<rparr>
              in (Some (storage s', i), s'))))"

text \<open>
  The first loop of \<^verbatim>\<open>deallocate\<close>: the first block of the vector with the start and
  the size read through the pointer is marked free.
\<close>

fun mark_free :: "int \<Rightarrow> int \<Rightarrow> MemoryBlock list \<Rightarrow> MemoryBlock list" where
  "mark_free st sz [] = []"
| "mark_free st sz (b # bs) =
     (if start b = st \<and> size_b b = sz then b\<lparr>free := True\<rparr> # bs
      else b # mark_free st sz bs)"

text \<open>\<^verbatim>\<open>blocks.erase(blocks.begin() + k)\<close>.\<close>

definition erase_at :: "nat \<Rightarrow> 'a list \<Rightarrow> 'a list" where
  "erase_at k xs = take k xs @ drop (Suc k) xs"

text \<open>
  The loop of \<^verbatim>\<open>mergeAdjacentFreeBlocks\<close>, with its index \<open>i\<close>: two free neighbours are
  merged and \<open>i\<close> stays; otherwise \<open>i\<close> advances.
\<close>

function merge_from :: "nat \<Rightarrow> MemoryBlock list \<Rightarrow> MemoryBlock list" where
  "merge_from i bs =
     (if Suc i < length bs then
        (if free (bs ! i) \<and> free (bs ! Suc i)
         then merge_from i
                (erase_at (Suc i) (bs[i := (bs ! i)\<lparr>size_b := size_b (bs ! i) + size_b (bs ! Suc i)\<rparr>]))
         else merge_from (Suc i) bs)
      else bs)"
  by pat_completeness auto
termination
  by (relation "measure (\<lambda>(i, bs). 2 * length bs - i)") (auto simp: erase_at_def)

declare merge_from.simps [simp del]

text \<open>
  \<^verbatim>\<open>std::sort\<close> by \<^verbatim>\<open>start\<close> is modelled by \<open>sort_key start\<close>: the two agree whenever
  the starts are pairwise different (lemma \<open>std_sort_by_start_unique\<close>), which holds on
  every reachable state. On an empty vector the loop bound \<^verbatim>\<open>blocks.size() - 1\<close> wraps
  around and the loop reads past the end: that is the result \<open>None\<close>.
\<close>

definition mergeAdjacentFreeBlocks :: "MemoryBlock list \<Rightarrow> MemoryBlock list option" where
  "mergeAdjacentFreeBlocks bs =
     (if bs = [] then None else Some (merge_from 0 (sort_key start bs)))"

text \<open>The body of \<^verbatim>\<open>deallocate\<close> once \<^verbatim>\<open>block->start\<close> and \<^verbatim>\<open>block->size\<close> are read.\<close>

definition deallocate_read :: "VecArena \<Rightarrow> int \<Rightarrow> int \<Rightarrow> VecArena option" where
  "deallocate_read s st sz =
     map_option (\<lambda>bs. s\<lparr>blocks_v := bs\<rparr>) (mergeAdjacentFreeBlocks (mark_free st sz (blocks_v s)))"

text \<open>
  \<^verbatim>\<open>deallocate\<close>: a null pointer returns at once; a pointer to slot \<open>i\<close> of the present
  storage is read there. Reading through a pointer into an earlier storage, or to a slot
  past the end of the vector, is undefined in C++: that is the result \<open>None\<close>. Sorting and
  erasing do not move the storage.
\<close>

definition deallocate_v :: "VecArena \<Rightarrow> (nat \<times> nat) option \<Rightarrow> VecArena option" where
  "deallocate_v s block =
     (case block of
        None \<Rightarrow> Some s
      | Some (g, i) \<Rightarrow>
          if g = storage s \<and> i < length (blocks_v s)
          then deallocate_read s (start (blocks_v s ! i)) (size_b (blocks_v s ! i))
          else None)"

section \<open>Tasks and schedulers (main.cpp)\<close>

text \<open>\<^verbatim>\<open>struct RealTimeTask\<close>; the field \<^verbatim>\<open>id\<close> is named \<open>task_id\<close>.\<close>

record RealTimeTask =
  task_id :: int
  memoryRequired :: int
  executionTime :: int
  priority :: int

text \<open>The constructor \<^verbatim>\<open>RealTimeTask(i, mem, execTime, prio)\<close>: it stores its arguments.\<close>

definition new_RealTimeTask :: "int \<Rightarrow> int \<Rightarrow> int \<Rightarrow> int \<Rightarrow> RealTimeTask" where
  "new_RealTimeTask i mem execTime prio =
     \<lparr>task_id = i, memoryRequired = mem, executionTime = execTime, priority = prio\<rparr>"

text \<open>
  What the schedulers print, as a log: a slice of a round-robin task (task, time run,
  time remaining), a task of the shortest-job-first scheduler run to its end, and a task
  whose allocation failed.
\<close>

datatype event = Slice int int int | Completed int | AllocFailed int

text \<open>The task an entry of the log is about.\<close>

fun event_task :: "event \<Rightarrow> int" where
  "event_task (Slice i t r) = i"
| "event_task (Completed i) = i"
| "event_task (AllocFailed i) = i"

record RRScheduler =
  tasks :: "RealTimeTask list"
  quantum :: int

definition addTask :: "RRScheduler \<Rightarrow> RealTimeTask \<Rightarrow> RRScheduler" where
  "addTask sch task = sch\<lparr>tasks := tasks sch @ [task]\<rparr>"

text \<open>
  \<^verbatim>\<open>RRScheduler::processTasks\<close>. The queue is a list with its front at the head. The
  loop may run forever (a quantum of 0 never finishes a task), so not returning is the
  value \<open>None\<close>.
\<close>

partial_function (option) processTasks ::
  "RRScheduler \<Rightarrow> ListArena \<Rightarrow> event list \<Rightarrow> (RRScheduler \<times> ListArena \<times> event list) option"
  where
  "processTasks sch allocator log =
     (case tasks sch of
        [] \<Rightarrow> Some (sch, allocator, log)
      | task # rest \<Rightarrow>
          (case allocate allocator (memoryRequired task) of
             (Some block, allocator1) \<Rightarrow>
               (let execTime = min (executionTime task) (quantum sch);
                    task' = task\<lparr>executionTime := executionTime task - execTime\<rparr>;
                    queue = (if executionTime task' > 0 then rest @ [task'] else rest)
                in processTasks (sch\<lparr>tasks := queue\<rparr>)
                     (deallocate allocator1 (Some block))
                     (log @ [Slice (task_id task) execTime (executionTime task')]))
           | (None, allocator1) \<Rightarrow>
               processTasks (sch\<lparr>tasks := rest\<rparr>) allocator1
                 (log @ [AllocFailed (task_id task)])))"

declare processTasks.simps [code]

text \<open>
  What is left to do in a queue: for each task one visit and its remaining time. Every
  turn of the loop of \<open>processTasks\<close> makes it smaller when the quantum is positive.
\<close>

definition remaining_work :: "RealTimeTask list \<Rightarrow> nat" where
  "remaining_work ts = sum_list (map (\<lambda>t. Suc (nat (executionTime t))) ts)"

text \<open>
  \<^verbatim>\<open>SJFScheduler\<close>: its state is the vector of tasks; \<^verbatim>\<open>addTask\<close> appends.
\<close>

type_synonym SJFScheduler = "RealTimeTask list"

definition addTask_sjf :: "SJFScheduler \<Rightarrow> RealTimeTask \<Rightarrow> SJFScheduler" where
  "addTask_sjf ts task = ts @ [task]"

text \<open>
  \<^verbatim>\<open>std::sort(first, last, comp)\<close> is library code. The C++ standard promises a
  rearrangement of the elements that is sorted with respect to \<open>cmp\<close>, and nothing about
  the order of elements that compare equivalent. \<open>std_sort_result cmp xs ys\<close> says that
  \<open>ys\<close> is a result of sorting \<open>xs\<close> the standard allows.
\<close>

definition std_sort_result :: "('a \<Rightarrow> 'a \<Rightarrow> bool) \<Rightarrow> 'a list \<Rightarrow> 'a list \<Rightarrow> bool" where
  "std_sort_result cmp xs ys \<longleftrightarrow> mset ys = mset xs \<and> sorted_wrt (\<lambda>a b. \<not> cmp b a) ys"

text \<open>The comparison \<^verbatim>\<open>a.executionTime < b.executionTime\<close> of \<^verbatim>\<open>SJFScheduler::processTasks\<close>.\<close>

definition shorter :: "RealTimeTask \<Rightarrow> RealTimeTask \<Rightarrow> bool" where
  "shorter a b \<longleftrightarrow> executionTime a < executionTime b"

text \<open>The body of the \<^verbatim>\<open>for\<close> loop of \<^verbatim>\<open>SJFScheduler::processTasks\<close>.\<close>

definition serve :: "ListArena \<times> event list \<Rightarrow> RealTimeTask \<Rightarrow> ListArena \<times> event list" where
  "serve st task =
     (case allocate (fst st) (memoryRequired task) of
        (Some block, allocator1) \<Rightarrow>
          (deallocate allocator1 (Some block), snd st @ [Completed (task_id task)])
      | (None, allocator1) \<Rightarrow> (allocator1, snd st @ [AllocFailed (task_id task)]))"

text \<open>
  \<^verbatim>\<open>SJFScheduler::processTasks\<close>, given the order \<open>sorted_tasks\<close> in which \<^verbatim>\<open>std::sort\<close>
  leaves the vector: the tasks are served in that order and stay in the vector.
\<close>

definition processTasks_sorted ::
  "RealTimeTask list \<Rightarrow> ListArena \<Rightarrow> SJFScheduler \<times> ListArena \<times> event list" where
  "processTasks_sorted sorted_tasks allocator =
     (sorted_tasks, foldl serve (allocator, []) sorted_tasks)"

definition processTasks_sjf ::
  "SJFScheduler \<Rightarrow> ListArena \<Rightarrow> SJFScheduler \<times> ListArena \<times> event list \<Rightarrow> bool" where
  "processTasks_sjf ts allocator result \<longleftrightarrow>
     std_sort_result shorter ts (fst result) \<and> result = processTasks_sorted (fst result) allocator"

section \<open>The sort of the GNU C++ library\<close>

text \<open>
  Which rearrangement \<^verbatim>\<open>std::sort\<close> leaves is decided by the library. This section is not
  code of the repository: it follows \<^verbatim>\<open>std::sort\<close> of GNU libstdc++ (bits/stl_algo.h), an
  introsort. Ranges are pairs of indices into the vector; a comparison \<^verbatim>\<open>comp(i, j)\<close> of
  two iterators is \<open>cmp (xs ! i) (xs ! j)\<close>.
\<close>

definition iter_swap :: "nat \<Rightarrow> nat \<Rightarrow> 'a list \<Rightarrow> 'a list" where
  "iter_swap i j xs = xs[i := xs ! j, j := xs ! i]"

definition move_median_to_first ::
  "('a \<Rightarrow> 'a \<Rightarrow> bool) \<Rightarrow> nat \<Rightarrow> nat \<Rightarrow> nat \<Rightarrow> nat \<Rightarrow> 'a list \<Rightarrow> 'a list" where
  "move_median_to_first cmp result a b c xs =
     (if cmp (xs ! a) (xs ! b) then
        (if cmp (xs ! b) (xs ! c) then iter_swap result b xs
         else if cmp (xs ! a) (xs ! c) then iter_swap result c xs
         else iter_swap result a xs)
      else if cmp (xs ! a) (xs ! c) then iter_swap result a xs
      else if cmp (xs ! b) (xs ! c) then iter_swap result c xs
      else iter_swap result b xs)"

text \<open>
  The two inner loops of \<^verbatim>\<open>__unguarded_partition\<close>. In the library they have no bound
  check, the pivot stopping them; here a scan also stops at the end of the vector.
\<close>

function scan_up :: "('a \<Rightarrow> 'a \<Rightarrow> bool) \<Rightarrow> 'a list \<Rightarrow> nat \<Rightarrow> nat \<Rightarrow> nat" where
  "scan_up cmp xs pivot frst =
     (if frst < length xs \<and> cmp (xs ! frst) (xs ! pivot)
      then scan_up cmp xs pivot (Suc frst) else frst)"
  by pat_completeness auto
termination
  by (relation "measure (\<lambda>(cmp, xs, pivot, frst). length xs - frst)") auto

declare scan_up.simps [simp del]

function scan_down :: "('a \<Rightarrow> 'a \<Rightarrow> bool) \<Rightarrow> 'a list \<Rightarrow> nat \<Rightarrow> nat \<Rightarrow> nat" where
  "scan_down cmp xs pivot lst =
     (if 0 < lst \<and> cmp (xs ! pivot) (xs ! lst)
      then scan_down cmp xs pivot (lst - 1) else lst)"
  by pat_completeness auto
termination
  by (relation "measure (\<lambda>(cmp, xs, pivot, lst). lst)") auto

declare scan_down.simps [simp del]

text \<open>
  \<^verbatim>\<open>__unguarded_partition(first, last, pivot)\<close>; the first argument bounds the number of
  turns of its outer loop (\<open>None\<close> when it is used up).
\<close>

fun unguarded_partition ::
  "nat \<Rightarrow> ('a \<Rightarrow> 'a \<Rightarrow> bool) \<Rightarrow> 'a list \<Rightarrow> nat \<Rightarrow> nat \<Rightarrow> nat \<Rightarrow> (nat \<times> 'a list) option" where
  "unguarded_partition 0 cmp xs frst lst pivot = None"
| "unguarded_partition (Suc fuel) cmp xs frst lst pivot =
     (let frst' = scan_up cmp xs pivot frst;
          lst' = scan_down cmp xs pivot (lst - 1)
      in if \<not> frst' < lst' then Some (frst', xs)
         else unguarded_partition fuel cmp (iter_swap frst' lst' xs) (Suc frst') lst' pivot)"

definition unguarded_partition_pivot ::
  "('a \<Rightarrow> 'a \<Rightarrow> bool) \<Rightarrow> 'a list \<Rightarrow> nat \<Rightarrow> nat \<Rightarrow> (nat \<times> 'a list) option" where
  "unguarded_partition_pivot cmp xs frst lst =
     (let mid = frst + (lst - frst) div 2;
          xs' = move_median_to_first cmp frst (frst + 1) mid (lst - 1) xs
      in unguarded_partition (length xs) cmp xs' (frst + 1) lst frst)"

text \<open>
  \<^verbatim>\<open>__introsort_loop(first, last, depth_limit)\<close>. When the depth limit is used up the
  library sorts the range as a heap; that branch is not modelled and is the result
  \<open>None\<close>, as is a used-up bound on the number of calls.
\<close>

fun introsort_loop ::
  "nat \<Rightarrow> ('a \<Rightarrow> 'a \<Rightarrow> bool) \<Rightarrow> 'a list \<Rightarrow> nat \<Rightarrow> nat \<Rightarrow> nat \<Rightarrow> 'a list option" where
  "introsort_loop 0 cmp xs frst lst depth_limit = None"
| "introsort_loop (Suc fuel) cmp xs frst lst depth_limit =
     (if 16 < lst - frst then
        (if depth_limit = 0 then None
         else
           (case unguarded_partition_pivot cmp xs frst lst of
              None \<Rightarrow> None
            | Some (c, xs1) \<Rightarrow>
                (case introsort_loop fuel cmp xs1 c lst (depth_limit - 1) of
                   None \<Rightarrow> None
                 | Some xs2 \<Rightarrow> introsort_loop fuel cmp xs2 frst c (depth_limit - 1))))
      else Some xs)"

text \<open>
  \<^verbatim>\<open>__unguarded_linear_insert\<close>: the value moves to the left past the elements that are
  greater. \<^verbatim>\<open>__insertion_sort\<close> puts a value that is less than the first element in front
  and inserts any other value in that way.
\<close>

definition linear_insert :: "('a \<Rightarrow> 'a \<Rightarrow> bool) \<Rightarrow> 'a list \<Rightarrow> 'a \<Rightarrow> 'a list" where
  "linear_insert cmp sorted_part x =
     rev (dropWhile (cmp x) (rev sorted_part)) @ x # rev (takeWhile (cmp x) (rev sorted_part))"

definition insertion_sort :: "('a \<Rightarrow> 'a \<Rightarrow> bool) \<Rightarrow> 'a list \<Rightarrow> 'a list" where
  "insertion_sort cmp xs =
     foldl (\<lambda>p x. if p \<noteq> [] \<and> cmp x (hd p) then x # p else linear_insert cmp p x) [] xs"

definition final_insertion_sort :: "('a \<Rightarrow> 'a \<Rightarrow> bool) \<Rightarrow> 'a list \<Rightarrow> 'a list" where
  "final_insertion_sort cmp xs =
     (if 16 < length xs
      then foldl (linear_insert cmp) (insertion_sort cmp (take 16 xs)) (drop 16 xs)
      else insertion_sort cmp xs)"

text \<open>\<^verbatim>\<open>std::__lg\<close>: the binary logarithm, rounded down.\<close>

function lg :: "nat \<Rightarrow> nat" where
  "lg n = (if n < 2 then 0 else Suc (lg (n div 2)))"
  by pat_completeness auto
termination
  by (relation "measure id") auto

declare lg.simps [simp del]

definition gnu_sort :: "('a \<Rightarrow> 'a \<Rightarrow> bool) \<Rightarrow> 'a list \<Rightarrow> 'a list option" where
  "gnu_sort cmp xs =
     (if xs = [] then Some []
      else map_option (final_insertion_sort cmp)
             (introsort_loop (length xs) cmp xs 0 (length xs) (2 * lg (length xs))))"

text \<open>\<^verbatim>\<open>SJFScheduler::processTasks\<close> with this \<^verbatim>\<open>std::sort\<close>.\<close>

definition processTasks_gnu ::
  "SJFScheduler \<Rightarrow> ListArena \<Rightarrow> (SJFScheduler \<times> ListArena \<times> event list) option" where
  "processTasks_gnu ts allocator =
     map_option (\<lambda>sorted_tasks. processTasks_sorted sorted_tasks allocator) (gnu_sort shorter ts)"

text \<open>An example task: number \<open>i\<close>, 10 units of memory, execution time 300.\<close>

definition equal_task :: "int \<Rightarrow> RealTimeTask" where
  "equal_task i = \<lparr>task_id = i, memoryRequired = 10, executionTime = 300, priority = 2\<rparr>"

section \<open>Invariants and reachable states\<close>

text \<open>
  A sequence of blocks partitions \<open>[0, T)\<close>: the first block starts at 0, each block
  starts where the one before it ends, every size is positive, and the sizes sum to
  \<open>T\<close>.
\<close>

definition partitions :: "int \<Rightarrow> MemoryBlock list \<Rightarrow> bool" where
  "partitions T bs \<longleftrightarrow>
     bs \<noteq> [] \<and> start (hd bs) = 0
     \<and> (\<forall>i. Suc i < length bs \<longrightarrow> start (bs ! Suc i) = start (bs ! i) + size_b (bs ! i))
     \<and> (\<forall>b \<in> set bs. 0 < size_b b)
     \<and> sum_list (map size_b bs) = T"

text \<open>No two neighbours of a sequence of blocks are both free.\<close>

definition no_adjacent_free :: "MemoryBlock list \<Rightarrow> bool" where
  "no_adjacent_free bs \<longleftrightarrow> (\<forall>i. Suc i < length bs \<longrightarrow> \<not> (free (bs ! i) \<and> free (bs ! Suc i)))"

text \<open>A free block \<open>b'\<close> covers the addresses of the block \<open>b\<close>.\<close>

definition covers :: "MemoryBlock \<Rightarrow> MemoryBlock \<Rightarrow> bool" where
  "covers b' b \<longleftrightarrow> free b' \<and> start b' \<le> start b \<and> start b + size_b b \<le> start b' + size_b b'"

text \<open>
  The same two properties by recursion over the sequence, for the proofs; \<open>p\<close> tells
  whether the block before the sequence is free.
\<close>

fun chain :: "int \<Rightarrow> MemoryBlock list \<Rightarrow> int \<Rightarrow> bool" where
  "chain a [] e \<longleftrightarrow> a = e"
| "chain a (b # bs) e \<longleftrightarrow> start b = a \<and> 0 < size_b b \<and> chain (a + size_b b) bs e"

fun no_free_pair :: "bool \<Rightarrow> MemoryBlock list \<Rightarrow> bool" where
  "no_free_pair p [] \<longleftrightarrow> True"
| "no_free_pair p (b # bs) \<longleftrightarrow> \<not> (p \<and> free b) \<and> no_free_pair (free b) bs"

text \<open>The loop of \<^verbatim>\<open>mergeAdjacentFreeBlocks\<close> by recursion over the sequence.\<close>

fun merge_loop :: "MemoryBlock list \<Rightarrow> MemoryBlock list" where
  "merge_loop (a # b # bs) =
     (if free a \<and> free b then merge_loop (a\<lparr>size_b := size_b a + size_b b\<rparr> # bs)
      else a # merge_loop (b # bs))"
| "merge_loop bs = bs"

text \<open>
  The invariant of the list allocator: its list, in list order, is a chain from 0 to
  \<open>T\<close> without two free neighbours, and the node addresses are pairwise different.
\<close>

definition arena_inv :: "int \<Rightarrow> ListArena \<Rightarrow> bool" where
  "arena_inv T s \<longleftrightarrow>
     chain 0 (snapshot s) T \<and> no_free_pair False (snapshot s)
     \<and> distinct (map fst (blocks s))"

text \<open>
  The invariant of the vector allocator: some arrangement of its blocks is such a chain
  (it is the vector sorted by start, see \<open>vec_inv_sorted\<close>).
\<close>

definition vec_inv :: "int \<Rightarrow> MemoryBlock list \<Rightarrow> bool" where
  "vec_inv T bs \<longleftrightarrow> (\<exists>ys. mset ys = mset bs \<and> chain 0 ys T \<and> no_free_pair False ys)"

text \<open>
  The states of the list allocator reachable from \<^verbatim>\<open>FirstFitAllocator(T)\<close> by calls of
  \<^verbatim>\<open>allocate\<close> with a positive size and calls of \<^verbatim>\<open>deallocate\<close> with any handle, on
  any heap that does not hand out the address of a node of the list.
\<close>

inductive reachable :: "int \<Rightarrow> ListArena \<Rightarrow> bool" for T :: int where
  reachable_init: "reachable T (FirstFitAllocator hp T)"
| reachable_allocate:
    "reachable T s \<Longrightarrow> 0 < sz \<Longrightarrow> heap s (next_node s) \<notin> fst ` set (blocks s)
     \<Longrightarrow> allocate s sz = (h, s') \<Longrightarrow> reachable T s'"
| reachable_deallocate: "reachable T s \<Longrightarrow> reachable T (deallocate s h)"

text \<open>
  The same for the vector allocator; a request is at most \<open>INT_MAX - 16\<close>, so that
  \<^verbatim>\<open>size + 16\<close> does not overflow, and a call of \<^verbatim>\<open>deallocate\<close> counts when its behaviour
  is defined, that is, when its handle is null or points into the present storage of the
  vector.
\<close>

inductive reachable_v :: "int \<Rightarrow> VecArena \<Rightarrow> bool" for T :: int where
  reachable_v_init: "reachable_v T (FirstFitAllocator_v T)"
| reachable_v_allocate:
    "reachable_v T s \<Longrightarrow> 0 < sz \<Longrightarrow> sz \<le> INT_MAX - 16 \<Longrightarrow> allocate_v s sz = (h, s')
     \<Longrightarrow> reachable_v T s'"
| reachable_v_deallocate:
    "reachable_v T s \<Longrightarrow> deallocate_v s h = Some s' \<Longrightarrow> reachable_v T s'"

section \<open>Chains of blocks\<close>

lemma chain_append: "chain a (xs @ ys) e \<longleftrightarrow> (\<exists>m. chain a xs m \<and> chain m ys e)"
  by (induction xs arbitrary: a) auto

lemma chain_sum: "chain a bs e \<Longrightarrow> sum_list (map size_b bs) = e - a"
  by (induction bs arbitrary: a) auto

lemma chain_pos: "chain a bs e \<Longrightarrow> b \<in> set bs \<Longrightarrow> 0 < size_b b"
  by (induction bs arbitrary: a) auto

lemma chain_le: "chain a bs e \<Longrightarrow> a \<le> e"
  by (induction bs arbitrary: a) fastforce+

lemma chain_lower: "chain a bs e \<Longrightarrow> b \<in> set bs \<Longrightarrow> a \<le> start b \<and> start b + size_b b \<le> e"
proof (induction bs arbitrary: a)
  case Nil
  then show ?case by simp
next
  case (Cons x xs)
  show ?case
  proof (cases "b = x")
    case True
    with Cons.prems chain_le [of "a + size_b x" xs e] show ?thesis by simp
  next
    case False
    with Cons.prems Cons.IH [of "a + size_b x"] show ?thesis by fastforce
  qed
qed

lemma chain_nth: "chain a bs e \<Longrightarrow> Suc i < length bs \<Longrightarrow> start (bs ! Suc i) = start (bs ! i) + size_b (bs ! i)"
proof (induction bs arbitrary: a i)
  case Nil
  then show ?case by simp
next
  case (Cons x xs)
  show ?case
  proof (cases i)
    case 0
    with Cons.prems show ?thesis by (cases xs) auto
  next
    case (Suc j)
    with Cons.prems Cons.IH [of "a + size_b x" j] show ?thesis by simp
  qed
qed

lemma chain_sorted: "chain a bs e \<Longrightarrow> sorted (map start bs) \<and> distinct (map start bs)"
proof (induction bs arbitrary: a)
  case Nil
  then show ?case by simp
next
  case (Cons x xs)
  have "\<forall>b \<in> set xs. start x < start b"
    using Cons.prems chain_lower [of "a + size_b x" xs e] by fastforce
  with Cons show ?case by fastforce
qed

lemma chain_partitions: "0 < T \<Longrightarrow> chain 0 bs T \<Longrightarrow> partitions T bs"
  unfolding partitions_def
  using chain_sum [of 0 bs T] chain_pos [of 0 bs T] chain_nth [of 0 bs T]
  by (cases bs) auto

lemma no_free_pair_nth: "no_free_pair p bs \<Longrightarrow> Suc i < length bs \<Longrightarrow> \<not> (free (bs ! i) \<and> free (bs ! Suc i))"
proof (induction bs arbitrary: p i)
  case Nil
  then show ?case by simp
next
  case (Cons x xs)
  show ?case
  proof (cases i)
    case 0
    with Cons.prems show ?thesis by (cases xs) auto
  next
    case (Suc j)
    with Cons.prems Cons.IH [of "free x" j] show ?thesis by simp
  qed
qed

lemma no_free_pair_adjacent: "no_free_pair p bs \<Longrightarrow> no_adjacent_free bs"
  unfolding no_adjacent_free_def using no_free_pair_nth by blast

lemma no_free_pair_weaken: "no_free_pair p bs \<Longrightarrow> no_free_pair False bs"
  by (cases bs) auto

lemma no_free_pair_True: "no_free_pair True bs \<Longrightarrow> no_free_pair p bs"
  by (cases bs) auto

subsection \<open>The list allocator keeps the invariants\<close>

lemma allocate_scan_chain:
  "allocate_scan fresh sz bs = Some (h, bs') \<Longrightarrow> 0 < sz \<Longrightarrow> chain a (map snd bs) e
   \<Longrightarrow> chain a (map snd bs') e"
proof (induction bs arbitrary: a bs')
  case Nil
  then show ?case by simp
next
  case (Cons x xs)
  obtain n b where x: "x = (n, b)" by (cases x)
  show ?case
  proof (cases "free b \<and> sz \<le> size_b b")
    case True
    with Cons.prems x show ?thesis by (auto simp: Let_def split: if_splits)
  next
    case False
    with Cons.prems x obtain r where r: "allocate_scan fresh sz xs = Some (h, r)" and bs': "bs' = x # r"
      by auto
    from Cons.IH [OF r Cons.prems(2), of "a + size_b b"] Cons.prems(3) x bs' show ?thesis by simp
  qed
qed

lemma allocate_scan_no_free_pair:
  "allocate_scan fresh sz bs = Some (h, bs') \<Longrightarrow> no_free_pair p (map snd bs)
   \<Longrightarrow> no_free_pair p (map snd bs')"
proof (induction bs arbitrary: p bs')
  case Nil
  then show ?case by simp
next
  case (Cons x xs)
  obtain n b where x: "x = (n, b)" by (cases x)
  show ?case
  proof (cases "free b \<and> sz \<le> size_b b")
    case True
    with Cons.prems x no_free_pair_weaken [of True "map snd xs"] show ?thesis
      by (auto simp: Let_def split: if_splits)
  next
    case False
    with Cons.prems x obtain r where r: "allocate_scan fresh sz xs = Some (h, r)" and bs': "bs' = x # r"
      by auto
    from Cons.IH [OF r, of "free b"] Cons.prems(2) x bs' show ?thesis by simp
  qed
qed

lemma allocate_scan_ids:
  "allocate_scan fresh sz bs = Some (h, bs') \<Longrightarrow> set (map fst bs') \<subseteq> insert fresh (set (map fst bs))"
proof (induction bs arbitrary: bs')
  case Nil
  then show ?case by simp
next
  case (Cons x xs)
  obtain n b where x: "x = (n, b)" by (cases x)
  show ?case
  proof (cases "free b \<and> sz \<le> size_b b")
    case True
    with Cons.prems x show ?thesis by (auto simp: Let_def split: if_splits)
  next
    case False
    with Cons.prems x obtain r where r: "allocate_scan fresh sz xs = Some (h, r)" and bs': "bs' = x # r"
      by auto
    from Cons.IH [OF r] x bs' show ?thesis by auto
  qed
qed

lemma allocate_scan_distinct:
  "allocate_scan fresh sz bs = Some (h, bs') \<Longrightarrow> distinct (map fst bs) \<Longrightarrow> fresh \<notin> set (map fst bs)
   \<Longrightarrow> distinct (map fst bs')"
proof (induction bs arbitrary: bs')
  case Nil
  then show ?case by simp
next
  case (Cons x xs)
  obtain n b where x: "x = (n, b)" by (cases x)
  show ?case
  proof (cases "free b \<and> sz \<le> size_b b")
    case True
    with Cons.prems x show ?thesis by (auto simp: Let_def split: if_splits)
  next
    case False
    with Cons.prems x obtain r where r: "allocate_scan fresh sz xs = Some (h, r)" and bs': "bs' = x # r"
      by auto
    from Cons.IH [OF r] allocate_scan_ids [OF r] Cons.prems(2,3) x bs' show ?thesis by auto
  qed
qed

lemma merge_next_chain:
  "chain a (b # map snd rest) e \<Longrightarrow> chain a (map snd (merge_next (n, b) rest)) e"
  by (cases rest) (auto simp: add.assoc)

lemma merge_next_no_free_pair:
  assumes "\<not> p" and "no_free_pair q (map snd rest)"
  shows "no_free_pair p (map snd (merge_next (n, b) rest))"
proof (cases rest)
  case Nil
  with assms show ?thesis by simp
next
  case (Cons x xs)
  obtain n' b' where x: "x = (n', b')" by (cases x)
  show ?thesis
  proof (cases "free b'")
    case True
    with assms Cons x have "no_free_pair True (map snd xs)" by simp
    then have "no_free_pair (free b) (map snd xs)" by (rule no_free_pair_True)
    with assms Cons x True show ?thesis by simp
  next
    case False
    with assms Cons x show ?thesis by simp
  qed
qed

lemma merge_next_ids:
  "set (map fst (merge_next x rest)) \<subseteq> set (map fst (x # rest))
   \<and> (distinct (map fst (x # rest)) \<longrightarrow> distinct (map fst (merge_next x rest)))"
  by (cases x; cases rest) (auto split: if_splits)

lemma deallocate_after_chain:
  "chain a (pb # map snd rest) e \<Longrightarrow> chain a (map snd (deallocate_after h (pa, pb) rest)) e"
proof (induction rest arbitrary: a pa pb)
  case Nil
  then show ?case by simp
next
  case (Cons x xs)
  obtain n b where x: "x = (n, b)" by (cases x)
  show ?case
  proof (cases "n = h")
    case True
    show ?thesis
    proof (cases "free pb")
      case True
      have "chain a (pb\<lparr>size_b := size_b pb + size_b b\<rparr> # map snd xs) e"
        using Cons.prems x by (simp add: add.assoc)
      from merge_next_chain [OF this] \<open>n = h\<close> True x show ?thesis by simp
    next
      case False
      have "chain (a + size_b pb) (b\<lparr>free := True\<rparr> # map snd xs) e"
        using Cons.prems x by simp
      from merge_next_chain [OF this] \<open>n = h\<close> False x Cons.prems show ?thesis by simp
    qed
  next
    case False
    with Cons.prems x Cons.IH [of "a + size_b pb" b n] show ?thesis by simp
  qed
qed

lemma deallocate_scan_chain:
  assumes c: "chain a (map snd bs) e"
  shows "chain a (map snd (deallocate_scan h bs)) e"
proof (cases bs)
  case Nil
  with c show ?thesis by simp
next
  case (Cons x xs)
  obtain n b where x: "x = (n, b)" by (cases x)
  show ?thesis
  proof (cases "n = h")
    case True
    have "chain a (b\<lparr>free := True\<rparr> # map snd xs) e" using c Cons x by simp
    from merge_next_chain [OF this] True Cons x show ?thesis by simp
  next
    case False
    with c Cons x deallocate_after_chain [of a b xs e h n] show ?thesis by simp
  qed
qed

lemma deallocate_after_no_free_pair:
  "no_free_pair p (pb # map snd rest) \<Longrightarrow> no_free_pair p (map snd (deallocate_after h (pa, pb) rest))"
proof (induction rest arbitrary: p pa pb)
  case Nil
  then show ?case by simp
next
  case (Cons x xs)
  obtain n b where x: "x = (n, b)" by (cases x)
  show ?case
  proof (cases "n = h")
    case True
    show ?thesis
    proof (cases "free pb")
      case True
      have np: "\<not> p" and r: "no_free_pair (free b) (map snd xs)"
        using Cons.prems x True by auto
      from merge_next_no_free_pair [OF np r] \<open>n = h\<close> True x show ?thesis by simp
    next
      case False
      have r: "no_free_pair (free b) (map snd xs)" using Cons.prems x by simp
      have "\<not> free pb" by (rule False)
      from merge_next_no_free_pair [OF this r, of n "b\<lparr>free := True\<rparr>"] \<open>n = h\<close> False x
      show ?thesis by simp
    qed
  next
    case False
    with Cons.prems x Cons.IH [of "free pb" b n] show ?thesis by simp
  qed
qed

lemma deallocate_scan_no_free_pair:
  assumes c: "no_free_pair False (map snd bs)"
  shows "no_free_pair False (map snd (deallocate_scan h bs))"
proof (cases bs)
  case Nil
  then show ?thesis by simp
next
  case (Cons x xs)
  obtain n b where x: "x = (n, b)" by (cases x)
  show ?thesis
  proof (cases "n = h")
    case True
    have r: "no_free_pair (free b) (map snd xs)" using c Cons x by simp
    have "\<not> False" by simp
    from merge_next_no_free_pair [OF this r, of n "b\<lparr>free := True\<rparr>"] True Cons x show ?thesis by simp
  next
    case False
    with c Cons x deallocate_after_no_free_pair [of False b xs h n] show ?thesis by simp
  qed
qed

lemma deallocate_after_ids:
  "set (map fst (deallocate_after h prv rest)) \<subseteq> set (map fst (prv # rest))
   \<and> (distinct (map fst (prv # rest)) \<longrightarrow> distinct (map fst (deallocate_after h prv rest)))"
proof (induction rest arbitrary: prv)
  case Nil
  then show ?case by simp
next
  case (Cons x xs)
  obtain n b where x: "x = (n, b)" by (cases x)
  obtain pa pb where prv: "prv = (pa, pb)" by (cases prv)
  show ?case
  proof (cases "n = h")
    case True
    with x prv merge_next_ids [of "(pa, pb\<lparr>size_b := size_b pb + size_b b\<rparr>)" xs]
      merge_next_ids [of "(n, b\<lparr>free := True\<rparr>)" xs]
    show ?thesis by auto
  next
    case False
    with x prv Cons.IH [of "(n, b)"] show ?thesis by auto
  qed
qed

lemma deallocate_scan_ids:
  "set (map fst (deallocate_scan h bs)) \<subseteq> set (map fst bs)
   \<and> (distinct (map fst bs) \<longrightarrow> distinct (map fst (deallocate_scan h bs)))"
proof (cases bs)
  case Nil
  then show ?thesis by simp
next
  case (Cons x xs)
  obtain n b where x: "x = (n, b)" by (cases x)
  show ?thesis
    using Cons x merge_next_ids [of "(n, b\<lparr>free := True\<rparr>)" xs] deallocate_after_ids [of h "(n, b)" xs]
    by auto
qed

lemma arena_inv_init: "0 < T \<Longrightarrow> arena_inv T (FirstFitAllocator hp T)"
  by (simp add: arena_inv_def FirstFitAllocator_def MemoryAllocator_def snapshot_def)

lemma arena_inv_allocate:
  assumes inv: "arena_inv T s" and sz: "0 < sz"
    and fresh: "heap s (next_node s) \<notin> fst ` set (blocks s)"
    and al: "allocate s sz = (h, s')"
  shows "arena_inv T s'"
proof (cases "allocate_scan (heap s (next_node s)) sz (blocks s)")
  case None
  with al have "s' = s" by (simp add: allocate_def)
  with inv show ?thesis by simp
next
  case (Some r)
  obtain n bs where r: "r = (n, bs)" by (cases r)
  from Some r al have s': "s' = s\<lparr>blocks := bs, next_node := Suc (next_node s)\<rparr>"
    by (simp add: allocate_def)
  from Some r have sc: "allocate_scan (heap s (next_node s)) sz (blocks s) = Some (n, bs)" by simp
  from fresh have fresh': "heap s (next_node s) \<notin> set (map fst (blocks s))" by simp
  have "chain 0 (map snd bs) T"
    using allocate_scan_chain [OF sc sz] inv by (simp add: arena_inv_def snapshot_def)
  moreover have "no_free_pair False (map snd bs)"
    using allocate_scan_no_free_pair [OF sc] inv by (simp add: arena_inv_def snapshot_def)
  moreover have "distinct (map fst bs)"
    using allocate_scan_distinct [OF sc _ fresh'] inv by (simp add: arena_inv_def)
  ultimately show ?thesis by (simp add: arena_inv_def snapshot_def s')
qed

lemma arena_inv_deallocate:
  assumes inv: "arena_inv T s"
  shows "arena_inv T (deallocate s h)"
proof (cases h)
  case None
  with inv show ?thesis by (simp add: deallocate_def)
next
  case (Some n)
  have "chain 0 (map snd (deallocate_scan n (blocks s))) T"
    using deallocate_scan_chain inv by (simp add: arena_inv_def snapshot_def)
  moreover have "no_free_pair False (map snd (deallocate_scan n (blocks s)))"
    using deallocate_scan_no_free_pair inv by (simp add: arena_inv_def snapshot_def)
  moreover have "distinct (map fst (deallocate_scan n (blocks s)))"
    using deallocate_scan_ids [of n "blocks s"] inv by (simp add: arena_inv_def)
  ultimately show ?thesis by (simp add: arena_inv_def snapshot_def deallocate_def Some)
qed

lemma reachable_arena_inv:
  assumes T: "0 < T" and r: "reachable T s"
  shows "arena_inv T s"
  using r
proof (induction rule: reachable.induct)
  case (reachable_init hp)
  from T show ?case by (rule arena_inv_init)
next
  case (reachable_allocate s sz h s')
  then show ?case using arena_inv_allocate by blast
next
  case (reachable_deallocate s h)
  then show ?case using arena_inv_deallocate by blast
qed

lemma sorted_by_start_id: "chain a bs e \<Longrightarrow> sort_key start bs = bs"
  using chain_sorted sort_key_id_if_sorted by blast

subsection \<open>The vector allocator keeps the invariants\<close>

lemma no_free_pair_append:
  "no_free_pair p (xs @ ys) \<longleftrightarrow>
     no_free_pair p xs \<and> no_free_pair (if xs = [] then p else free (last xs)) ys"
  by (induction xs arbitrary: p) auto

lemma first_fit_Some:
  "first_fit sz bs = Some i \<Longrightarrow>
     i < length bs \<and> free (bs ! i) \<and> sz \<le> size_b (bs ! i)
     \<and> (\<forall>j < i. \<not> (free (bs ! j) \<and> sz \<le> size_b (bs ! j)))"
proof (induction bs arbitrary: i)
  case Nil
  then show ?case by simp
next
  case (Cons b bs)
  show ?case
  proof (cases "free b \<and> sz \<le> size_b b")
    case True
    with Cons.prems show ?thesis by auto
  next
    case False
    with Cons.prems obtain k where k: "first_fit sz bs = Some k" and i: "i = Suc k" by auto
    from Cons.IH [OF k] False i show ?thesis by (auto simp: less_Suc_eq_0_disj)
  qed
qed

lemma first_fit_None:
  "first_fit sz bs = None \<longleftrightarrow> (\<forall>b \<in> set bs. \<not> (free b \<and> sz \<le> size_b b))"
  by (induction bs) auto

lemma std_sort_by_start_unique:
  assumes "std_sort_result (\<lambda>a b. start a < start b) bs ys" and "distinct (map start bs)"
  shows "ys = sort_key start bs"
proof -
  from assms(1) have m: "mset bs = mset ys" and s: "sorted_wrt (\<lambda>a b. \<not> start b < start a) ys"
    by (simp_all add: std_sort_result_def)
  from s have "sorted (map start ys)"
    by (simp add: sorted_wrt_map not_less)
  moreover from assms(2) have "inj_on start (set bs)" by (simp add: distinct_map)
  ultimately show ?thesis using m sort_key_inj_key_eq [of bs ys start] by simp
qed

lemma vec_inv_sorted:
  assumes m: "mset ys = mset bs" and c: "chain a ys e"
  shows "sort_key start bs = ys"
proof -
  from c have s: "sorted (map start ys)" and d: "distinct (map start ys)"
    using chain_sorted by blast+
  from d have "inj_on start (set ys)" by (simp add: distinct_map)
  moreover from m have "set ys = set bs" by (rule mset_eq_setD)
  ultimately have "inj_on start (set bs)" by simp
  with m s show ?thesis using sort_key_inj_key_eq [of bs ys start] by simp
qed

lemma mset_replace:
  assumes m: "mset (pre @ b # post) = mset bs" and i: "i < length bs" and b: "bs ! i = b"
  shows "mset (pre @ b' # post) = mset (bs[i := b'])"
proof -
  have "mset (bs[i := b']) = add_mset b' (mset bs - {#b#})"
    using i b by (simp add: mset_update)
  also have "mset bs - {#b#} = mset pre + mset post"
    using m [symmetric] by simp
  finally show ?thesis by simp
qed

lemma take_block_inv:
  assumes "chain a (pre @ b # post) e" and "no_free_pair p (pre @ b # post)" and "free b"
  shows "chain a (pre @ b\<lparr>free := False\<rparr> # post) e \<and> no_free_pair p (pre @ b\<lparr>free := False\<rparr> # post)"
proof -
  from assms(2,3) have "no_free_pair True post" by (simp add: no_free_pair_append)
  then have "no_free_pair False post" by (rule no_free_pair_True)
  with assms show ?thesis by (auto simp: chain_append no_free_pair_append)
qed

lemma split_block_inv:
  assumes "chain a (pre @ b # post) e" and "no_free_pair p (pre @ b # post)" and "free b"
    and "0 < sz" and "sz < size_b b"
  shows "chain a (pre @ b\<lparr>size_b := sz, free := False\<rparr>
            # \<lparr>start = start b + sz, size_b = size_b b - sz, free = True\<rparr> # post) e
       \<and> no_free_pair p (pre @ b\<lparr>size_b := sz, free := False\<rparr>
            # \<lparr>start = start b + sz, size_b = size_b b - sz, free = True\<rparr> # post)"
  using assms by (auto simp: chain_append no_free_pair_append)

lemma free_block_chain:
  "chain a (pre @ b # post) e \<Longrightarrow> chain a (pre @ b\<lparr>free := True\<rparr> # post) e"
  by (auto simp: chain_append)


lemma blocks_v_push_back: "blocks_v (push_back s b) = blocks_v s @ [b]"
  by (simp add: push_back_def)

lemma totalMemory_push_back: "totalMemory (push_back s b) = totalMemory s"
  by (simp add: push_back_def)

lemma vec_inv_allocate:
  assumes inv: "vec_inv T (blocks_v s)" and sz: "0 < sz" and al: "allocate_v s sz = (h, s')"
  shows "vec_inv T (blocks_v s')"
proof (cases "first_fit sz (blocks_v s)")
  case None
  with al have "s' = s" by (simp add: allocate_v_def)
  with inv show ?thesis by simp
next
  case (Some i)
  let ?bs = "blocks_v s"
  let ?b = "?bs ! i"
  from first_fit_Some [OF Some] have i: "i < length ?bs" and fr: "free ?b" and fit: "sz \<le> size_b ?b"
    by simp_all
  from inv obtain ys where m: "mset ys = mset ?bs" and c: "chain 0 ys T" and n: "no_free_pair False ys"
    by (auto simp: vec_inv_def)
  from i have "?b \<in> set ?bs" by simp
  with m have "?b \<in> set ys" using mset_eq_setD by blast
  then obtain pre post where ys: "ys = pre @ ?b # post" by (meson split_list)
  show ?thesis
  proof (cases "size_b ?b \<le> sz + 16")
    case True
    with Some al have s': "blocks_v s' = ?bs[i := ?b\<lparr>free := False\<rparr>]"
      by (auto simp: allocate_v_def Let_def)
    have "mset (pre @ ?b\<lparr>free := False\<rparr> # post) = mset (?bs[i := ?b\<lparr>free := False\<rparr>])"
      using mset_replace [OF _ i refl] m ys by simp
    moreover from take_block_inv [OF _ _ fr] c n ys
    have "chain 0 (pre @ ?b\<lparr>free := False\<rparr> # post) T"
      and "no_free_pair False (pre @ ?b\<lparr>free := False\<rparr> # post)" by simp_all
    ultimately show ?thesis unfolding vec_inv_def s' by blast
  next
    case False
    let ?b1 = "?b\<lparr>size_b := sz, free := False\<rparr>"
    let ?b2 = "\<lparr>start = start ?b + sz, size_b = size_b ?b - sz, free = True\<rparr>"
    from False Some al have s': "blocks_v s' = ?bs[i := ?b1] @ [?b2]"
      by (auto simp: allocate_v_def Let_def blocks_v_push_back)
    from False have lt: "sz < size_b ?b" by simp
    have "mset (pre @ ?b1 # post) = mset (?bs[i := ?b1])"
      using mset_replace [OF _ i refl] m ys by simp
    then have "mset (pre @ ?b1 # ?b2 # post) = mset (?bs[i := ?b1] @ [?b2])" by simp
    moreover from split_block_inv [OF _ _ fr sz lt] c n ys
    have "chain 0 (pre @ ?b1 # ?b2 # post) T" and "no_free_pair False (pre @ ?b1 # ?b2 # post)"
      by simp_all
    ultimately show ?thesis unfolding vec_inv_def s' by blast
  qed
qed


lemma mark_free_cases:
  "mark_free st sz bs = bs
   \<or> (\<exists>i < length bs. start (bs ! i) = st \<and> size_b (bs ! i) = sz
         \<and> mark_free st sz bs = bs[i := (bs ! i)\<lparr>free := True\<rparr>])"
proof (induction bs)
  case Nil
  then show ?case by simp
next
  case (Cons b bs)
  show ?case
  proof (cases "start b = st \<and> size_b b = sz")
    case True
    then have "0 < length (b # bs) \<and> start ((b # bs) ! 0) = st \<and> size_b ((b # bs) ! 0) = sz
       \<and> mark_free st sz (b # bs) = (b # bs)[0 := ((b # bs) ! 0)\<lparr>free := True\<rparr>]" by simp
    then show ?thesis by blast
  next
    case False
    from Cons.IH show ?thesis
    proof
      assume "mark_free st sz bs = bs"
      with False have "mark_free st sz (b # bs) = b # bs" by auto
      then show ?thesis by blast
    next
      assume "\<exists>i<length bs. start (bs ! i) = st \<and> size_b (bs ! i) = sz
         \<and> mark_free st sz bs = bs[i := (bs ! i)\<lparr>free := True\<rparr>]"
      then obtain i where "i < length bs" "start (bs ! i) = st" "size_b (bs ! i) = sz"
        "mark_free st sz bs = bs[i := (bs ! i)\<lparr>free := True\<rparr>]" by blast
      with False have "Suc i < length (b # bs) \<and> start ((b # bs) ! Suc i) = st
         \<and> size_b ((b # bs) ! Suc i) = sz
         \<and> mark_free st sz (b # bs) = (b # bs)[Suc i := ((b # bs) ! Suc i)\<lparr>free := True\<rparr>]"
        by auto
      then show ?thesis by blast
    qed
  qed
qed

lemma merge_loop_hd:
  "bs \<noteq> [] \<Longrightarrow> merge_loop bs \<noteq> [] \<and> free (hd (merge_loop bs)) = free (hd bs)"
  by (induction bs rule: merge_loop.induct) auto

lemma merge_loop_chain: "chain a bs e \<Longrightarrow> chain a (merge_loop bs) e"
  by (induction bs arbitrary: a rule: merge_loop.induct) (auto simp: add.assoc)

lemma merge_loop_no_free_pair: "no_free_pair False (merge_loop bs)"
proof (induction bs rule: merge_loop.induct)
  case (1 a b bs)
  show ?case
  proof (cases "free a \<and> free b")
    case True
    with 1 show ?thesis by simp
  next
    case False
    obtain c cs where cs: "merge_loop (b # bs) = c # cs" and fc: "free c = free b"
      using merge_loop_hd [of "b # bs"] by (cases "merge_loop (b # bs)") auto
    from 1(2) [OF False] cs have "no_free_pair (free c) cs" by simp
    with False cs fc show ?thesis by auto
  qed
qed simp_all

lemma merge_loop_id: "no_free_pair p bs \<Longrightarrow> merge_loop bs = bs"
  by (induction bs arbitrary: p rule: merge_loop.induct) auto

lemma merge_loop_short: "length bs \<le> 1 \<Longrightarrow> merge_loop bs = bs"
  by (cases bs; cases "tl bs") auto

lemma merge_from_loop: "merge_from i bs = take i bs @ merge_loop (drop i bs)"
proof (induction i bs rule: merge_from.induct)
  case (1 i bs)
  show ?case
  proof (cases "Suc i < length bs")
    case False
    then have "length (drop i bs) \<le> 1" by simp
    then have "merge_loop (drop i bs) = drop i bs" by (rule merge_loop_short)
    with False show ?thesis by (subst merge_from.simps) simp
  next
    case True
    let ?x = "bs ! i" and ?y = "bs ! Suc i"
    from True have d: "drop i bs = ?x # ?y # drop (Suc (Suc i)) bs"
      by (simp add: Cons_nth_drop_Suc Suc_lessD)
    show ?thesis
    proof (cases "free ?x \<and> free ?y")
      case False
      with True 1(2) have "merge_from i bs = take (Suc i) bs @ merge_loop (drop (Suc i) bs)"
        by (subst merge_from.simps) auto
      also have "\<dots> = take i bs @ ?x # merge_loop (?y # drop (Suc (Suc i)) bs)"
        using True by (simp add: take_Suc_conv_app_nth Suc_lessD Cons_nth_drop_Suc)
      also have "\<dots> = take i bs @ merge_loop (drop i bs)"
        using False d by auto
      finally show ?thesis .
    next
      case both: True
      let ?x' = "?x\<lparr>size_b := size_b ?x + size_b ?y\<rparr>"
      let ?bs' = "erase_at (Suc i) (bs[i := ?x'])"
      from True have t: "take i ?bs' = take i bs"
        by (simp add: erase_at_def min_def)
      from True have "?bs' = take i bs @ ?x' # drop (Suc (Suc i)) bs"
        by (simp add: erase_at_def take_Suc_conv_app_nth Suc_lessD upd_conv_take_nth_drop)
      then have dr: "drop i ?bs' = ?x' # drop (Suc (Suc i)) bs"
        using True by (simp add: Suc_lessD)
      from True both 1(1) have "merge_from i bs = take i ?bs' @ merge_loop (drop i ?bs')"
        by (subst merge_from.simps) simp
      also have "\<dots> = take i bs @ merge_loop (drop i bs)"
        using both d dr t by simp
      finally show ?thesis .
    qed
  qed
qed


lemma vec_inv_deallocate_read:
  assumes inv: "vec_inv T (blocks_v s)" and T: "0 < T" and d: "deallocate_read s st sz = Some s'"
  shows "vec_inv T (blocks_v s') \<and> sort_key start (blocks_v s') = blocks_v s'"
proof -
  let ?bs = "blocks_v s"
  let ?bs' = "mark_free st sz ?bs"
  from inv obtain ys where m: "mset ys = mset ?bs" and c: "chain 0 ys T" and n: "no_free_pair False ys"
    by (auto simp: vec_inv_def)
  have "\<exists>ys'. mset ys' = mset ?bs' \<and> chain 0 ys' T"
  proof -
    from mark_free_cases [of st sz ?bs] show ?thesis
    proof
      assume "?bs' = ?bs"
      with m c show ?thesis by auto
    next
      assume "\<exists>i<length ?bs. start (?bs ! i) = st \<and> size_b (?bs ! i) = sz
         \<and> ?bs' = ?bs[i := (?bs ! i)\<lparr>free := True\<rparr>]"
      then obtain i where i: "i < length ?bs" and e: "?bs' = ?bs[i := (?bs ! i)\<lparr>free := True\<rparr>]"
        by blast
      from i have "?bs ! i \<in> set ?bs" by simp
      with m have "?bs ! i \<in> set ys" using mset_eq_setD by blast
      then obtain pre post where ys: "ys = pre @ ?bs ! i # post" by (meson split_list)
      have "mset (pre @ (?bs ! i)\<lparr>free := True\<rparr> # post) = mset ?bs'"
        using mset_replace [OF _ i refl] m ys e by simp
      moreover have "chain 0 (pre @ (?bs ! i)\<lparr>free := True\<rparr> # post) T"
        using free_block_chain c ys by simp
      ultimately show ?thesis by blast
    qed
  qed
  then obtain ys' where m': "mset ys' = mset ?bs'" and c': "chain 0 ys' T" by blast
  from vec_inv_sorted [OF m' c'] have so: "sort_key start ?bs' = ys'" .
  from c' T have "ys' \<noteq> []" by auto
  with m' have ne: "?bs' \<noteq> []" by auto
  with d so have s': "blocks_v s' = merge_loop ys'"
    by (auto simp: deallocate_read_def mergeAdjacentFreeBlocks_def merge_from_loop)
  have "chain 0 (merge_loop ys') T" using c' by (rule merge_loop_chain)
  moreover have "no_free_pair False (merge_loop ys')" by (rule merge_loop_no_free_pair)
  ultimately show ?thesis
    unfolding vec_inv_def s' using sorted_by_start_id by blast
qed

lemma vec_inv_init: "0 < T \<Longrightarrow> vec_inv T (blocks_v (FirstFitAllocator_v T))"
  unfolding vec_inv_def FirstFitAllocator_v_def blocks_v_push_back
  by (rule exI [of _ "[\<lparr>start = 0, size_b = T, free = True\<rparr>]"]) simp

lemma reachable_v_inv:
  assumes T: "0 < T" and r: "reachable_v T s"
  shows "vec_inv T (blocks_v s)"
  using r
proof (induction rule: reachable_v.induct)
  case reachable_v_init
  from T show ?case by (rule vec_inv_init)
next
  case (reachable_v_allocate s sz h s')
  then show ?case using vec_inv_allocate by blast
next
  case (reachable_v_deallocate s h s')
  show ?case
  proof (cases h)
    case None
    with reachable_v_deallocate show ?thesis by (simp add: deallocate_v_def)
  next
    case (Some i)
    with reachable_v_deallocate(2) obtain st sz where "deallocate_read s st sz = Some s'"
      by (auto simp: deallocate_v_def split: if_splits prod.splits)
    from vec_inv_deallocate_read [OF reachable_v_deallocate(3) T this] show ?thesis by simp
  qed
qed

subsection \<open>Example runs\<close>

lemma example_list_allocate_900:
  "allocate (FirstFitAllocator id 1000) 900 =
     (Some 0, \<lparr>blocks = [(0, Block 0 900 False), (1, Block 900 100 True)],
               totalSize = 1000, next_node = 2, heap = id\<rparr>)"
  by (simp add: allocate_def FirstFitAllocator_def MemoryAllocator_def)

lemma example_list_reachable:
  "reachable 1000 \<lparr>blocks = [(0, Block 0 900 False), (1, Block 900 100 True)],
                    totalSize = 1000, next_node = 2, heap = id\<rparr>"
  by (rule reachable_allocate [OF reachable_init _ _ example_list_allocate_900])
    (simp_all add: FirstFitAllocator_def MemoryAllocator_def)

lemma example_vec_run:
  "allocate_v
       \<lparr>totalMemory = 1000,
         blocks_v = [Block 0 1000 True],
         capacity = 1, storage = 1\<rparr> 100 =
     (Some (2, 0),
       \<lparr>totalMemory = 1000,
         blocks_v = [Block 0 100 False, Block 100 900 True],
         capacity = 2, storage = 2\<rparr>)"
  "allocate_v
       \<lparr>totalMemory = 1000,
         blocks_v = [Block 0 100 False, Block 100 900 True],
         capacity = 2, storage = 2\<rparr> 100 =
     (Some (3, 1),
       \<lparr>totalMemory = 1000,
         blocks_v = [Block 0 100 False, Block 100 100 False, Block 200 800 True],
         capacity = 4, storage = 3\<rparr>)"
  "allocate_v
       \<lparr>totalMemory = 1000,
         blocks_v = [Block 0 100 False, Block 100 100 False, Block 200 800 True],
         capacity = 4, storage = 3\<rparr> 100 =
     (Some (3, 2),
       \<lparr>totalMemory = 1000,
         blocks_v = [Block 0 100 False, Block 100 100 False, Block 200 100 False,
                     Block 300 700 True],
         capacity = 4, storage = 3\<rparr>)"
  "deallocate_v
       \<lparr>totalMemory = 1000,
         blocks_v = [Block 0 100 False, Block 100 100 False, Block 200 100 False,
                     Block 300 700 True],
         capacity = 4, storage = 3\<rparr> (Some (3, 1)) =
     Some
       \<lparr>totalMemory = 1000,
         blocks_v = [Block 0 100 False, Block 100 100 True, Block 200 100 False,
                     Block 300 700 True],
         capacity = 4, storage = 3\<rparr>"
  "allocate_v
       \<lparr>totalMemory = 1000,
         blocks_v = [Block 0 100 False, Block 100 100 True, Block 200 100 False,
                     Block 300 700 True],
         capacity = 4, storage = 3\<rparr> 50 =
     (Some (4, 1),
       \<lparr>totalMemory = 1000,
         blocks_v = [Block 0 100 False, Block 100 50 False, Block 200 100 False,
                     Block 300 700 True, Block 150 50 True],
         capacity = 8, storage = 4\<rparr>)"
  by (simp_all add: allocate_v_def FirstFitAllocator_v_def push_back_def grow_def deallocate_v_def
      deallocate_read_def mergeAdjacentFreeBlocks_def merge_from_loop)

lemma example_vec_reachable:
  "reachable_v 1000
       \<lparr>totalMemory = 1000,
         blocks_v = [Block 0 100 False, Block 100 50 False, Block 200 100 False,
                     Block 300 700 True, Block 150 50 True],
         capacity = 8, storage = 4\<rparr>"
proof -
  have r0: "reachable_v 1000
       \<lparr>totalMemory = 1000,
         blocks_v = [Block 0 1000 True],
         capacity = 1, storage = 1\<rparr>"
    using reachable_v_init [of 1000] by (simp add: FirstFitAllocator_v_def push_back_def grow_def)
  have r1: "reachable_v 1000
       \<lparr>totalMemory = 1000,
         blocks_v = [Block 0 100 False, Block 100 900 True],
         capacity = 2, storage = 2\<rparr>"
    by (rule reachable_v_allocate [OF r0 _ _ example_vec_run(1)]) (simp_all add: INT_MAX_def)
  have r2: "reachable_v 1000
       \<lparr>totalMemory = 1000,
         blocks_v = [Block 0 100 False, Block 100 100 False, Block 200 800 True],
         capacity = 4, storage = 3\<rparr>"
    by (rule reachable_v_allocate [OF r1 _ _ example_vec_run(2)]) (simp_all add: INT_MAX_def)
  have r3: "reachable_v 1000
       \<lparr>totalMemory = 1000,
         blocks_v = [Block 0 100 False, Block 100 100 False, Block 200 100 False,
                     Block 300 700 True],
         capacity = 4, storage = 3\<rparr>"
    by (rule reachable_v_allocate [OF r2 _ _ example_vec_run(3)]) (simp_all add: INT_MAX_def)
  have r4: "reachable_v 1000
       \<lparr>totalMemory = 1000,
         blocks_v = [Block 0 100 False, Block 100 100 True, Block 200 100 False,
                     Block 300 700 True],
         capacity = 4, storage = 3\<rparr>"
    by (rule reachable_v_deallocate [OF r3 example_vec_run(4)])
  show ?thesis
    by (rule reachable_v_allocate [OF r4 _ _ example_vec_run(5)]) (simp_all add: INT_MAX_def)
qed

subsection \<open>C1 and C2: the block invariants\<close>

text \<open>
  C1. Every state reachable from a new arena of a positive total size \<open>T\<close> by calls of
  allocate (with a positive size) and deallocate partitions \<open>[0, T)\<close> exactly when its
  blocks are sorted by start: the first block starts at 0, each block starts where the
  one before it ends, every size is positive and the sizes sum to \<open>T\<close>. This holds for
  the list allocator of main.cpp, whose list is in this order already, and for the vector
  allocator of FirstFitAllocator.h.
\<close>

theorem partition_invariant:
  "0 < T \<Longrightarrow>
   (reachable T s \<longrightarrow>
      partitions T (sort_key start (snapshot s)) \<and> sort_key start (snapshot s) = snapshot s)
   \<and> (reachable_v T v \<longrightarrow> partitions T (sort_key start (blocks_v v)))"
proof (intro conjI impI)
  assume T: "0 < T" and r: "reachable T s"
  from reachable_arena_inv [OF T r] have c: "chain 0 (snapshot s) T" by (simp add: arena_inv_def)
  from sorted_by_start_id [OF c] show "sort_key start (snapshot s) = snapshot s" .
  with chain_partitions [OF T c] show "partitions T (sort_key start (snapshot s))" by simp
next
  assume T: "0 < T" and r: "reachable_v T v"
  from reachable_v_inv [OF T r] obtain ys where m: "mset ys = mset (blocks_v v)" and c: "chain 0 ys T"
    by (auto simp: vec_inv_def)
  from vec_inv_sorted [OF m c] chain_partitions [OF T c]
  show "partitions T (sort_key start (blocks_v v))" by simp
qed

theorem partition_invariant_witness:
  "(0::int) < 1000
   \<and> reachable 1000 \<lparr>blocks = [(0, Block 0 900 False), (1, Block 900 100 True)],
                       totalSize = 1000, next_node = 2, heap = id\<rparr>
   \<and> partitions 1000 [Block 0 900 False, Block 900 100 True]
   \<and> reachable_v 1000 \<lparr>totalMemory = 1000,
                 blocks_v = [Block 0 100 False, Block 100 50 False, Block 200 100 False,
                             Block 300 700 True, Block 150 50 True],
                 capacity = 8, storage = 4\<rparr>
   \<and> partitions 1000 [Block 0 100 False, Block 100 50 False, Block 150 50 True,
                       Block 200 100 False, Block 300 700 True]"
  using partition_invariant [of 1000
      "\<lparr>blocks = [(0, Block 0 900 False), (1, Block 900 100 True)], totalSize = 1000, next_node = 2, heap = id\<rparr>"
      "\<lparr>totalMemory = 1000,
                 blocks_v = [Block 0 100 False, Block 100 50 False, Block 200 100 False,
                             Block 300 700 True, Block 150 50 True],
                 capacity = 8, storage = 4\<rparr>"]
    example_list_reachable example_vec_reachable
  by (simp add: snapshot_def)

text \<open>
  C2. In every such state, no two blocks that are neighbours by address are both free.
\<close>

theorem no_adjacent_free_invariant:
  "0 < T \<Longrightarrow>
   (reachable T s \<longrightarrow> no_adjacent_free (sort_key start (snapshot s)))
   \<and> (reachable_v T v \<longrightarrow> no_adjacent_free (sort_key start (blocks_v v)))"
proof (intro conjI impI)
  assume T: "0 < T" and r: "reachable T s"
  from reachable_arena_inv [OF T r] have c: "chain 0 (snapshot s) T"
    and n: "no_free_pair False (snapshot s)" by (simp_all add: arena_inv_def)
  from sorted_by_start_id [OF c] no_free_pair_adjacent [OF n]
  show "no_adjacent_free (sort_key start (snapshot s))" by simp
next
  assume T: "0 < T" and r: "reachable_v T v"
  from reachable_v_inv [OF T r] obtain ys where m: "mset ys = mset (blocks_v v)"
    and c: "chain 0 ys T" and n: "no_free_pair False ys"
    by (auto simp: vec_inv_def)
  from vec_inv_sorted [OF m c] no_free_pair_adjacent [OF n]
  show "no_adjacent_free (sort_key start (blocks_v v))" by simp
qed

theorem no_adjacent_free_invariant_witness:
  "(0::int) < 1000
   \<and> reachable 1000 \<lparr>blocks = [(0, Block 0 900 False), (1, Block 900 100 True)],
                       totalSize = 1000, next_node = 2, heap = id\<rparr>
   \<and> no_adjacent_free [Block 0 900 False, Block 900 100 True]
   \<and> reachable_v 1000 \<lparr>totalMemory = 1000,
                 blocks_v = [Block 0 100 False, Block 100 50 False, Block 200 100 False,
                             Block 300 700 True, Block 150 50 True],
                 capacity = 8, storage = 4\<rparr>
   \<and> no_adjacent_free [Block 0 100 False, Block 100 50 False, Block 150 50 True,
                       Block 200 100 False, Block 300 700 True]"
  using no_adjacent_free_invariant [of 1000
      "\<lparr>blocks = [(0, Block 0 900 False), (1, Block 900 100 True)], totalSize = 1000, next_node = 2, heap = id\<rparr>"
      "\<lparr>totalMemory = 1000,
                 blocks_v = [Block 0 100 False, Block 100 50 False, Block 200 100 False,
                             Block 300 700 True, Block 150 50 True],
                 capacity = 8, storage = 4\<rparr>"]
    example_list_reachable example_vec_reachable
  by (simp add: snapshot_def)

text \<open>
  In a reachable state every block lies inside \<open>[0, T)\<close>, so the sums and differences
  the allocators compute on starts and sizes stay between 0 and \<open>T\<close>; and the starts are
  pairwise different, so that sorting by start has one result only.
\<close>

lemma reachable_bounds:
  assumes T: "0 < T"
  shows "reachable T s \<Longrightarrow> b \<in> set (snapshot s) \<Longrightarrow>
           0 \<le> start b \<and> 0 < size_b b \<and> start b + size_b b \<le> T"
    and "reachable_v T v \<Longrightarrow> b \<in> set (blocks_v v) \<Longrightarrow>
           0 \<le> start b \<and> 0 < size_b b \<and> start b + size_b b \<le> T"
proof -
  assume r: "reachable T s" and b: "b \<in> set (snapshot s)"
  from reachable_arena_inv [OF T r] have "chain 0 (snapshot s) T" by (simp add: arena_inv_def)
  from chain_lower [OF this b] chain_pos [OF this b]
  show "0 \<le> start b \<and> 0 < size_b b \<and> start b + size_b b \<le> T" by simp
next
  assume r: "reachable_v T v" and b: "b \<in> set (blocks_v v)"
  from reachable_v_inv [OF T r] obtain ys where m: "mset ys = mset (blocks_v v)" and c: "chain 0 ys T"
    by (auto simp: vec_inv_def)
  from m b have "b \<in> set ys" using mset_eq_setD by blast
  from chain_lower [OF c this] chain_pos [OF c this]
  show "0 \<le> start b \<and> 0 < size_b b \<and> start b + size_b b \<le> T" by simp
qed

lemma mark_free_starts: "map start (mark_free st sz bs) = map start bs"
  by (induction bs) simp_all

lemma reachable_v_distinct_starts:
  assumes T: "0 < T" and r: "reachable_v T v"
  shows "distinct (map start (mark_free st sz (blocks_v v)))"
proof -
  from reachable_v_inv [OF T r] obtain ys where m: "mset ys = mset (blocks_v v)" and c: "chain 0 ys T"
    by (auto simp: vec_inv_def)
  from chain_sorted [OF c] have "distinct (map start ys)" by simp
  moreover from m have "mset (map start ys) = mset (map start (blocks_v v))" by (metis mset_map)
  ultimately have "distinct (map start (blocks_v v))" by (metis mset_eq_imp_distinct_iff)
  then show ?thesis by (simp add: mark_free_starts)
qed

text \<open>
  The bound on the requests matters: \<^verbatim>\<open>allocate(0)\<close> of main.cpp leaves a block of size 0.
\<close>

lemma allocate_zero_size:
  "snapshot (snd (allocate (FirstFitAllocator id 1000) 0)) = [Block 0 0 False, Block 0 1000 True]"
  by (simp add: allocate_def FirstFitAllocator_def MemoryAllocator_def snapshot_def)

section \<open>Allocation\<close>

subsection \<open>The scan of the list allocator and the first fit\<close>

lemma allocate_scan_first_fit:
  "allocate_scan fresh sz bs =
     (case first_fit sz (map snd bs) of
        None \<Rightarrow> None
      | Some i \<Rightarrow>
          Some (fst (bs ! i),
            take i bs
            @ (fst (bs ! i), Block (start (snd (bs ! i))) sz False)
            # (if 0 < size_b (snd (bs ! i)) - sz
               then [(fresh, Block (start (snd (bs ! i)) + sz) (size_b (snd (bs ! i)) - sz) True)]
               else [])
            @ drop (Suc i) bs))"
proof (induction bs)
  case Nil
  then show ?case by simp
next
  case (Cons x xs)
  obtain n b where x: "x = (n, b)" by (cases x)
  show ?case
  proof (cases "free b \<and> sz \<le> size_b b")
    case True
    with x show ?thesis by (simp add: Let_def)
  next
    case False
    with x Cons.IH show ?thesis by (auto split: option.splits)
  qed
qed

lemma allocate_first_fit_Some:
  assumes "first_fit sz (snapshot s) = Some i"
  shows "allocate s sz =
     (Some (fst (blocks s ! i)),
      s\<lparr>blocks := take i (blocks s)
            @ (fst (blocks s ! i), Block (start (snapshot s ! i)) sz False)
            # (if 0 < size_b (snapshot s ! i) - sz
               then [(heap s (next_node s),
                      Block (start (snapshot s ! i) + sz) (size_b (snapshot s ! i) - sz) True)]
               else [])
            @ drop (Suc i) (blocks s),
         next_node := Suc (next_node s)\<rparr>)"
proof -
  from first_fit_Some [OF assms] have "i < length (blocks s)" by (simp add: snapshot_def)
  then have "snapshot s ! i = snd (blocks s ! i)" by (simp add: snapshot_def)
  with assms show ?thesis
    by (simp add: allocate_def allocate_scan_first_fit snapshot_def)
qed

lemma allocate_first_fit_None:
  "first_fit sz (snapshot s) = None \<Longrightarrow> allocate s sz = (None, s)"
  by (simp add: allocate_def allocate_scan_first_fit snapshot_def)

subsection \<open>C3: splitting\<close>

text \<open>
  C3 as stated fails on the list allocator of main.cpp: a request of 990 from the one
  free block of 1000 (an excess of 10, within the threshold) splits the block into 990
  and 10 instead of allocating all 1000.
\<close>

theorem split_threshold_counterexample:
  "first_fit 990 (snapshot (FirstFitAllocator id 1000)) = Some 0
   \<and> size_b (snapshot (FirstFitAllocator id 1000) ! 0) = 990 + 10
   \<and> snapshot (snd (allocate (FirstFitAllocator id 1000) 990)) = [Block 0 990 False, Block 990 10 True]
   \<and> snapshot (snd (allocate (FirstFitAllocator id 1000) 990)) \<noteq> [Block 0 1000 False]"
  by (simp add: allocate_def FirstFitAllocator_def MemoryAllocator_def snapshot_def)

text \<open>
  C3 (as the code has it). Let the first-fit candidate have size \<open>sz + k\<close>.
  In FirstFitAllocator.h (for a request of at most \<open>INT_MAX - 16\<close>, so that
  \<^verbatim>\<open>size + 16\<close> does not overflow): if \<open>k > 16\<close> the candidate's slot becomes the allocated block of
  size \<open>sz\<close> at the candidate's start, and a new free block of size \<open>k\<close> starting right
  after it is added; if \<open>k \<le> 16\<close> the whole candidate is allocated, with no split.
  In main.cpp there is no threshold: the candidate is split in this way whenever
  \<open>k > 0\<close>, the new free node being inserted right after the allocated one, and it is
  allocated whole only when \<open>k = 0\<close>.
\<close>

theorem split_policy:
  "(sz \<le> INT_MAX - 16 \<longrightarrow>
    first_fit sz (blocks_v v) = Some i \<longrightarrow> size_b (blocks_v v ! i) = sz + k \<longrightarrow>
      (16 < k \<longrightarrow>
         allocate_v v sz =
           (Some (storage (push_back
                    (v\<lparr>blocks_v := (blocks_v v)[i := Block (start (blocks_v v ! i)) sz False]\<rparr>)
                    (Block (start (blocks_v v ! i) + sz) k True)), i),
            push_back (v\<lparr>blocks_v := (blocks_v v)[i := Block (start (blocks_v v ! i)) sz False]\<rparr>)
              (Block (start (blocks_v v ! i) + sz) k True))
         \<and> blocks_v (snd (allocate_v v sz)) =
             (blocks_v v)[i := Block (start (blocks_v v ! i)) sz False]
             @ [Block (start (blocks_v v ! i) + sz) k True])
      \<and> (k \<le> 16 \<longrightarrow>
         allocate_v v sz =
           (Some (storage v, i),
            v\<lparr>blocks_v := (blocks_v v)[i := Block (start (blocks_v v ! i)) (sz + k) False]\<rparr>)))
   \<and> (first_fit sz' (snapshot s) = Some j \<longrightarrow> size_b (snapshot s ! j) = sz' + k' \<longrightarrow>
      fst (allocate s sz') = Some (fst (blocks s ! j))
      \<and> snapshot (snd (allocate s sz')) =
           take j (snapshot s)
           @ Block (start (snapshot s ! j)) sz' False
           # (if 0 < k' then [Block (start (snapshot s ! j) + sz') k' True] else [])
           @ drop (Suc j) (snapshot s))"
proof (intro conjI impI)
  assume f: "first_fit sz (blocks_v v) = Some i" and k: "size_b (blocks_v v ! i) = sz + k"
  have b: "(blocks_v v ! i)\<lparr>size_b := sz, free := False\<rparr> = Block (start (blocks_v v ! i)) sz False"
    by simp
  have b': "(blocks_v v ! i)\<lparr>free := False\<rparr> = Block (start (blocks_v v ! i)) (sz + k) False"
    using k by (cases "blocks_v v ! i") simp
  {
    assume "16 < k"
    with f k show al: "allocate_v v sz =
           (Some (storage (push_back
                    (v\<lparr>blocks_v := (blocks_v v)[i := Block (start (blocks_v v ! i)) sz False]\<rparr>)
                    (Block (start (blocks_v v ! i) + sz) k True)), i),
            push_back (v\<lparr>blocks_v := (blocks_v v)[i := Block (start (blocks_v v ! i)) sz False]\<rparr>)
              (Block (start (blocks_v v ! i) + sz) k True))"
      by (simp add: allocate_v_def Let_def b)
    show "blocks_v (snd (allocate_v v sz)) =
             (blocks_v v)[i := Block (start (blocks_v v ! i)) sz False]
             @ [Block (start (blocks_v v ! i) + sz) k True]"
      by (simp add: al blocks_v_push_back)
  }
  {
    assume "k \<le> 16"
    with f k show "allocate_v v sz =
           (Some (storage v, i),
            v\<lparr>blocks_v := (blocks_v v)[i := Block (start (blocks_v v ! i)) (sz + k) False]\<rparr>)"
      by (simp add: allocate_v_def Let_def b')
  }
next
  assume f: "first_fit sz' (snapshot s) = Some j" and k: "size_b (snapshot s ! j) = sz' + k'"
  from allocate_first_fit_Some [OF f] show "fst (allocate s sz') = Some (fst (blocks s ! j))"
    by simp
next
  assume f: "first_fit sz' (snapshot s) = Some j" and k: "size_b (snapshot s ! j) = sz' + k'"
  from allocate_first_fit_Some [OF f] k
  show "snapshot (snd (allocate s sz')) =
           take j (snapshot s)
           @ Block (start (snapshot s ! j)) sz' False
           # (if 0 < k' then [Block (start (snapshot s ! j) + sz') k' True] else [])
           @ drop (Suc j) (snapshot s)"
    by (simp add: snapshot_def take_map drop_map)
qed

theorem split_policy_witness:
  "first_fit 100 [Block 0 100 False, Block 100 900 True] = Some 1
   \<and> allocate_v
       \<lparr>totalMemory = 1000,
         blocks_v = [Block 0 100 False, Block 100 900 True],
         capacity = 2, storage = 2\<rparr> 100 =
     (Some (3, 1),
       \<lparr>totalMemory = 1000,
         blocks_v = [Block 0 100 False, Block 100 100 False, Block 200 800 True],
         capacity = 4, storage = 3\<rparr>)
   \<and> first_fit 890 [Block 0 100 False, Block 100 900 True] = Some 1
   \<and> allocate_v
       \<lparr>totalMemory = 1000,
         blocks_v = [Block 0 100 False, Block 100 900 True],
         capacity = 2, storage = 2\<rparr> 890 =
     (Some (2, 1),
       \<lparr>totalMemory = 1000,
         blocks_v = [Block 0 100 False, Block 100 900 False],
         capacity = 2, storage = 2\<rparr>)
   \<and> fst (allocate \<lparr>blocks = [(0, Block 0 900 False), (1, Block 900 100 True)],
                     totalSize = 1000, next_node = 2, heap = id\<rparr> 90) = Some 1
   \<and> snapshot (snd (allocate \<lparr>blocks = [(0, Block 0 900 False), (1, Block 900 100 True)],
                     totalSize = 1000, next_node = 2, heap = id\<rparr> 90)) =
       [Block 0 900 False, Block 900 90 False, Block 990 10 True]"
  using
    split_policy [where sz = 100 and i = 1 and k = 800 and sz' = 90 and j = 1 and k' = 10
      and v = "\<lparr>totalMemory = 1000,
            blocks_v = [Block 0 100 False, Block 100 900 True],
            capacity = 2, storage = 2\<rparr>"
      and s = "\<lparr>blocks = [(0, Block 0 900 False), (1, Block 900 100 True)],
                     totalSize = 1000, next_node = 2, heap = id\<rparr>"]
    split_policy [where sz = 890 and i = 1 and k = 10 and sz' = 90 and j = 1 and k' = 10
      and v = "\<lparr>totalMemory = 1000,
            blocks_v = [Block 0 100 False, Block 100 900 True],
            capacity = 2, storage = 2\<rparr>"
      and s = "\<lparr>blocks = [(0, Block 0 900 False), (1, Block 900 100 True)],
                     totalSize = 1000, next_node = 2, heap = id\<rparr>"]
  by (simp add: snapshot_def INT_MAX_def push_back_def grow_def)

subsection \<open>C4: first fit and failure\<close>

text \<open>
  In both allocators a call fails exactly when no free block is large enough, and a
  failed call leaves the arena as it was.
\<close>

lemma allocate_fails_iff:
  "fst (allocate s sz) = None \<longleftrightarrow> (\<forall>b \<in> set (snapshot s). \<not> (free b \<and> sz \<le> size_b b))"
  "fst (allocate_v v sz) = None \<longleftrightarrow> (\<forall>b \<in> set (blocks_v v). \<not> (free b \<and> sz \<le> size_b b))"
proof -
  show "fst (allocate s sz) = None \<longleftrightarrow> (\<forall>b \<in> set (snapshot s). \<not> (free b \<and> sz \<le> size_b b))"
    using first_fit_None [of sz "snapshot s"]
    by (cases "first_fit sz (snapshot s)")
      (simp_all add: allocate_first_fit_None allocate_first_fit_Some)
  show "fst (allocate_v v sz) = None \<longleftrightarrow> (\<forall>b \<in> set (blocks_v v). \<not> (free b \<and> sz \<le> size_b b))"
    using first_fit_None [of sz "blocks_v v"]
    by (cases "first_fit sz (blocks_v v)") (simp_all add: allocate_v_def Let_def)
qed

lemma allocate_fails_unchanged:
  "fst (allocate s sz) = None \<Longrightarrow> snd (allocate s sz) = s"
  "fst (allocate_v v sz) = None \<Longrightarrow> snd (allocate_v v sz) = v"
  by (auto simp: allocate_def allocate_v_def Let_def split: option.splits)

lemma allocation_failure_scenario:
  "allocate (FirstFitAllocator id 1000) 900 =
     (Some 0, \<lparr>blocks = [(0, Block 0 900 False), (1, Block 900 100 True)],
               totalSize = 1000, next_node = 2, heap = id\<rparr>)
   \<and> allocate \<lparr>blocks = [(0, Block 0 900 False), (1, Block 900 100 True)],
               totalSize = 1000, next_node = 2, heap = id\<rparr> 150 =
     (None, \<lparr>blocks = [(0, Block 0 900 False), (1, Block 900 100 True)],
               totalSize = 1000, next_node = 2, heap = id\<rparr>)
   \<and> allocate_v (FirstFitAllocator_v 1000) 900 =
     (Some (2, 0),
       \<lparr>totalMemory = 1000,
         blocks_v = [Block 0 900 False, Block 900 100 True],
         capacity = 2, storage = 2\<rparr>)
   \<and> allocate_v
       \<lparr>totalMemory = 1000,
         blocks_v = [Block 0 900 False, Block 900 100 True],
         capacity = 2, storage = 2\<rparr> 150 =
     (None,
       \<lparr>totalMemory = 1000,
         blocks_v = [Block 0 900 False, Block 900 100 True],
         capacity = 2, storage = 2\<rparr>)"
  by (simp add: allocate_def allocate_v_def FirstFitAllocator_def MemoryAllocator_def
      FirstFitAllocator_v_def push_back_def grow_def)

text \<open>
  The list of main.cpp is in address order in every reachable state, so its scan takes
  the free block of lowest address that is large enough.
\<close>

lemma sorted_nth_start:
  "sorted (map start bs) \<Longrightarrow> i \<le> j \<Longrightarrow> j < length bs \<Longrightarrow> start (bs ! i) \<le> start (bs ! j)"
  using sorted_nth_mono [of "map start bs" i j] by simp

lemma list_allocate_lowest_address:
  assumes T: "0 < T" and r: "reachable T s" and a: "fst (allocate s sz) = Some h"
  shows "\<exists>i. first_fit sz (snapshot s) = Some i \<and> h = fst (blocks s ! i)
           \<and> free (snapshot s ! i) \<and> sz \<le> size_b (snapshot s ! i)
           \<and> (\<forall>b \<in> set (snapshot s). free b \<and> sz \<le> size_b b \<longrightarrow> start (snapshot s ! i) \<le> start b)"
proof (cases "first_fit sz (snapshot s)")
  case None
  with a show ?thesis by (simp add: allocate_first_fit_None)
next
  case (Some i)
  from reachable_arena_inv [OF T r] have "chain 0 (snapshot s) T" by (simp add: arena_inv_def)
  then have so: "sorted (map start (snapshot s))" using chain_sorted by blast
  note ff = first_fit_Some [OF Some]
  have "start (snapshot s ! i) \<le> start b"
    if b: "b \<in> set (snapshot s)" and fit: "free b \<and> sz \<le> size_b b" for b
  proof -
    from b obtain j where j: "j < length (snapshot s)" and bj: "snapshot s ! j = b"
      by (auto simp: in_set_conv_nth)
    from ff fit bj have "\<not> j < i" by auto
    then have "i \<le> j" by simp
    from sorted_nth_start [OF so this j] bj show ?thesis by simp
  qed
  with Some a ff show ?thesis by (auto simp: allocate_first_fit_Some)
qed

text \<open>
  C4 on FirstFitAllocator.h: the scan runs over the vector in storage order, and a split
  appends the remainder at the end of the vector. After three allocations of 100, the
  release of the second and an allocation of 50, the vector holds the free block at
  address 150 behind the free block at address 300; a request of 40 is then served from
  address 300, although the free block at 150 is large enough and lower.
\<close>

theorem vector_scan_not_address_order:
  "allocate_v (FirstFitAllocator_v 1000) 100 =
     (Some (2, 0),
       \<lparr>totalMemory = 1000,
         blocks_v = [Block 0 100 False, Block 100 900 True],
         capacity = 2, storage = 2\<rparr>)
   \<and> allocate_v
       \<lparr>totalMemory = 1000,
         blocks_v = [Block 0 100 False, Block 100 900 True],
         capacity = 2, storage = 2\<rparr> 100 =
     (Some (3, 1),
       \<lparr>totalMemory = 1000,
         blocks_v = [Block 0 100 False, Block 100 100 False, Block 200 800 True],
         capacity = 4, storage = 3\<rparr>)
   \<and> allocate_v
       \<lparr>totalMemory = 1000,
         blocks_v = [Block 0 100 False, Block 100 100 False, Block 200 800 True],
         capacity = 4, storage = 3\<rparr> 100 =
     (Some (3, 2),
       \<lparr>totalMemory = 1000,
         blocks_v = [Block 0 100 False, Block 100 100 False, Block 200 100 False,
                     Block 300 700 True],
         capacity = 4, storage = 3\<rparr>)
   \<and> deallocate_v
       \<lparr>totalMemory = 1000,
         blocks_v = [Block 0 100 False, Block 100 100 False, Block 200 100 False,
                     Block 300 700 True],
         capacity = 4, storage = 3\<rparr> (Some (3, 1)) =
     Some
       \<lparr>totalMemory = 1000,
         blocks_v = [Block 0 100 False, Block 100 100 True, Block 200 100 False,
                     Block 300 700 True],
         capacity = 4, storage = 3\<rparr>
   \<and> allocate_v
       \<lparr>totalMemory = 1000,
         blocks_v = [Block 0 100 False, Block 100 100 True, Block 200 100 False,
                     Block 300 700 True],
         capacity = 4, storage = 3\<rparr> 50 =
     (Some (4, 1),
       \<lparr>totalMemory = 1000,
         blocks_v = [Block 0 100 False, Block 100 50 False, Block 200 100 False,
                     Block 300 700 True, Block 150 50 True],
         capacity = 8, storage = 4\<rparr>)
   \<and> allocate_v
       \<lparr>totalMemory = 1000,
         blocks_v = [Block 0 100 False, Block 100 50 False, Block 200 100 False,
                     Block 300 700 True, Block 150 50 True],
         capacity = 8, storage = 4\<rparr> 40 =
     (Some (4, 3),
       \<lparr>totalMemory = 1000,
         blocks_v = [Block 0 100 False, Block 100 50 False, Block 200 100 False,
                     Block 300 40 False, Block 150 50 True, Block 340 660 True],
         capacity = 8, storage = 4\<rparr>)
   \<and> [Block 0 100 False, Block 100 50 False, Block 200 100 False, Block 300 40 False,
      Block 150 50 True, Block 340 660 True] ! 3 = Block 300 40 False
   \<and> [Block 0 100 False, Block 100 50 False, Block 200 100 False, Block 300 700 True,
      Block 150 50 True] ! 4 = Block 150 50 True
   \<and> free (Block 150 50 True) \<and> 40 \<le> size_b (Block 150 50 True)
   \<and> start (Block 150 50 True) < start (Block 300 40 False)"
  by (simp add: allocate_v_def FirstFitAllocator_v_def push_back_def grow_def deallocate_v_def
      deallocate_read_def mergeAdjacentFreeBlocks_def merge_from_loop)

subsection \<open>C5: handles\<close>

text \<open>
  In main.cpp a handle is the address of a list node. A handle that resolves to an
  allocated block resolves to the same block after any allocation (the heap not handing
  out the address of a node of the list) and after the release of any other handle.
\<close>

lemma allocate_scan_keeps_allocated:
  "allocate_scan fresh sz bs = Some (h, bs') \<Longrightarrow> (n, b) \<in> set bs \<Longrightarrow> \<not> free b \<Longrightarrow> (n, b) \<in> set bs'"
proof (induction bs arbitrary: bs')
  case Nil
  then show ?case by simp
next
  case (Cons x xs)
  obtain m c where x: "x = (m, c)" by (cases x)
  show ?case
  proof (cases "free c \<and> sz \<le> size_b c")
    case True
    with Cons.prems x show ?thesis by (auto simp: Let_def split: if_splits)
  next
    case False
    with Cons.prems x obtain r where r: "allocate_scan fresh sz xs = Some (h, r)" and bs': "bs' = x # r"
      by auto
    from Cons.IH [OF r] Cons.prems(2,3) bs' show ?thesis by auto
  qed
qed

lemma merge_next_keeps_allocated:
  "(n, b) \<in> set (x # rest) \<Longrightarrow> \<not> free b \<Longrightarrow> fst x \<noteq> n \<Longrightarrow> (n, b) \<in> set (merge_next x rest)"
  by (cases x; cases rest) auto

lemma deallocate_after_keeps_allocated:
  "(n, b) \<in> set (prv # rest) \<Longrightarrow> \<not> free b \<Longrightarrow> n \<noteq> h \<Longrightarrow> distinct (map fst (prv # rest))
   \<Longrightarrow> (n, b) \<in> set (deallocate_after h prv rest)"
proof (induction rest arbitrary: prv)
  case Nil
  then show ?case by simp
next
  case (Cons x xs)
  obtain m c where x: "x = (m, c)" by (cases x)
  obtain pa pb where prv: "prv = (pa, pb)" by (cases prv)
  show ?case
  proof (cases "m = h")
    case True
    show ?thesis
    proof (cases "(n, b) = prv")
      case True
      with Cons.prems prv x \<open>m = h\<close> show ?thesis by simp
    next
      case False
      with Cons.prems prv x True have "(n, b) \<in> set xs" by auto
      moreover from this Cons.prems(4) prv x have "pa \<noteq> n" "m \<noteq> n" by force+
      ultimately show ?thesis
        using True prv x Cons.prems(2)
          merge_next_keeps_allocated [of n b "(pa, pb\<lparr>size_b := size_b pb + size_b c\<rparr>)" xs]
          merge_next_keeps_allocated [of n b "(m, c\<lparr>free := True\<rparr>)" xs]
        by simp
    qed
  next
    case False
    show ?thesis
    proof (cases "(n, b) = prv")
      case True
      with False prv x show ?thesis by simp
    next
      case neq: False
      with Cons.prems have "(n, b) \<in> set (x # xs)" by simp
      from Cons.IH [OF this Cons.prems(2,3)] Cons.prems(4) False prv x show ?thesis by simp
    qed
  qed
qed

lemma deallocate_scan_keeps_allocated:
  assumes "(n, b) \<in> set bs" and "\<not> free b" and "n \<noteq> h" and "distinct (map fst bs)"
  shows "(n, b) \<in> set (deallocate_scan h bs)"
proof (cases bs)
  case Nil
  with assms show ?thesis by simp
next
  case (Cons x xs)
  obtain m c where x: "x = (m, c)" by (cases x)
  show ?thesis
  proof (cases "m = h")
    case True
    with assms Cons x have "(n, b) \<in> set ((m, c\<lparr>free := True\<rparr>) # xs)" by auto
    from merge_next_keeps_allocated [OF this assms(2)] True assms(3) Cons x show ?thesis by simp
  next
    case False
    with assms Cons x deallocate_after_keeps_allocated [of n b "(m, c)" xs h] show ?thesis by simp
  qed
qed

lemma list_handle_stable:
  assumes T: "0 < T" and r: "reachable T s" and h: "map_of (blocks s) n = Some b" and b: "\<not> free b"
  shows "heap s (next_node s) \<notin> fst ` set (blocks s) \<Longrightarrow>
           map_of (blocks (snd (allocate s sz))) n = Some b"
    and "h' \<noteq> Some n \<Longrightarrow> map_of (blocks (deallocate s h')) n = Some b"
proof -
  from reachable_arena_inv [OF T r] have inv: "arena_inv T s" .
  then have d: "distinct (map fst (blocks s))" by (simp add: arena_inv_def)
  from h have m: "(n, b) \<in> set (blocks s)" by (rule map_of_SomeD)
  show "map_of (blocks (snd (allocate s sz))) n = Some b"
    if fresh: "heap s (next_node s) \<notin> fst ` set (blocks s)"
  proof (cases "allocate_scan (heap s (next_node s)) sz (blocks s)")
    case None
    with h show ?thesis by (simp add: allocate_def)
  next
    case (Some p)
    obtain k bs where p: "p = (k, bs)" by (cases p)
    from Some p have sc: "allocate_scan (heap s (next_node s)) sz (blocks s) = Some (k, bs)" by simp
    from fresh have "heap s (next_node s) \<notin> set (map fst (blocks s))" by simp
    from allocate_scan_distinct [OF sc d this] have "distinct (map fst bs)" .
    moreover from allocate_scan_keeps_allocated [OF sc m b] have "(n, b) \<in> set bs" .
    ultimately show ?thesis using sc by (simp add: allocate_def)
  qed
  show "map_of (blocks (deallocate s h')) n = Some b" if "h' \<noteq> Some n"
  proof (cases h')
    case None
    with h show ?thesis by (simp add: deallocate_def)
  next
    case (Some k)
    with that have "n \<noteq> k" by simp
    from deallocate_scan_keeps_allocated [OF m b this d]
    have "(n, b) \<in> set (deallocate_scan k (blocks s))" .
    moreover from deallocate_scan_ids [of k "blocks s"] d
    have "distinct (map fst (deallocate_scan k (blocks s)))" by simp
    ultimately show ?thesis using Some by (simp add: deallocate_def)
  qed
qed

text \<open>
  C5 on FirstFitAllocator.h: a handle is a pointer to a slot of the vector. Six blocks of
  100 are allocated; the fourth allocation moves the storage for the last time, so the
  handles of the fourth, fifth and sixth block (slots 3, 4, 5 of storage 4) stay valid
  pointers. Releasing the fourth and the fifth merges their blocks and erases a slot, so
  the blocks behind it move down: slot 5, the sixth handle, now holds the free block at
  address 600, while the block it was returned for (address 500, still allocated and
  never merged) sits in slot 4. Releasing the sixth handle then changes nothing, and its
  block stays allocated.
\<close>

theorem vector_handle_not_stable:
  "allocate_v (FirstFitAllocator_v 1000) 100 =
     (Some (2, 0),
       \<lparr>totalMemory = 1000,
         blocks_v = [Block 0 100 False, Block 100 900 True],
         capacity = 2, storage = 2\<rparr>)
   \<and> allocate_v
       \<lparr>totalMemory = 1000,
         blocks_v = [Block 0 100 False, Block 100 900 True],
         capacity = 2, storage = 2\<rparr> 100 =
     (Some (3, 1),
       \<lparr>totalMemory = 1000,
         blocks_v = [Block 0 100 False, Block 100 100 False, Block 200 800 True],
         capacity = 4, storage = 3\<rparr>)
   \<and> allocate_v
       \<lparr>totalMemory = 1000,
         blocks_v = [Block 0 100 False, Block 100 100 False, Block 200 800 True],
         capacity = 4, storage = 3\<rparr> 100 =
     (Some (3, 2),
       \<lparr>totalMemory = 1000,
         blocks_v = [Block 0 100 False, Block 100 100 False, Block 200 100 False,
                     Block 300 700 True],
         capacity = 4, storage = 3\<rparr>)
   \<and> allocate_v
       \<lparr>totalMemory = 1000,
         blocks_v = [Block 0 100 False, Block 100 100 False, Block 200 100 False,
                     Block 300 700 True],
         capacity = 4, storage = 3\<rparr> 100 =
     (Some (4, 3),
       \<lparr>totalMemory = 1000,
         blocks_v = [Block 0 100 False, Block 100 100 False, Block 200 100 False,
                     Block 300 100 False, Block 400 600 True],
         capacity = 8, storage = 4\<rparr>)
   \<and> allocate_v
       \<lparr>totalMemory = 1000,
         blocks_v = [Block 0 100 False, Block 100 100 False, Block 200 100 False,
                     Block 300 100 False, Block 400 600 True],
         capacity = 8, storage = 4\<rparr> 100 =
     (Some (4, 4),
       \<lparr>totalMemory = 1000,
         blocks_v = [Block 0 100 False, Block 100 100 False, Block 200 100 False,
                     Block 300 100 False, Block 400 100 False, Block 500 500 True],
         capacity = 8, storage = 4\<rparr>)
   \<and> allocate_v
       \<lparr>totalMemory = 1000,
         blocks_v = [Block 0 100 False, Block 100 100 False, Block 200 100 False,
                     Block 300 100 False, Block 400 100 False, Block 500 500 True],
         capacity = 8, storage = 4\<rparr> 100 =
     (Some (4, 5),
       \<lparr>totalMemory = 1000,
         blocks_v = [Block 0 100 False, Block 100 100 False, Block 200 100 False,
                     Block 300 100 False, Block 400 100 False, Block 500 100 False,
                     Block 600 400 True],
         capacity = 8, storage = 4\<rparr>)
   \<and> [Block 0 100 False, Block 100 100 False, Block 200 100 False, Block 300 100 False,
      Block 400 100 False, Block 500 100 False, Block 600 400 True] ! 5 = Block 500 100 False
   \<and> deallocate_v
       \<lparr>totalMemory = 1000,
         blocks_v = [Block 0 100 False, Block 100 100 False, Block 200 100 False,
                     Block 300 100 False, Block 400 100 False, Block 500 100 False,
                     Block 600 400 True],
         capacity = 8, storage = 4\<rparr> (Some (4, 3)) =
     Some
       \<lparr>totalMemory = 1000,
         blocks_v = [Block 0 100 False, Block 100 100 False, Block 200 100 False,
                     Block 300 100 True, Block 400 100 False, Block 500 100 False,
                     Block 600 400 True],
         capacity = 8, storage = 4\<rparr>
   \<and> deallocate_v
       \<lparr>totalMemory = 1000,
         blocks_v = [Block 0 100 False, Block 100 100 False, Block 200 100 False,
                     Block 300 100 True, Block 400 100 False, Block 500 100 False,
                     Block 600 400 True],
         capacity = 8, storage = 4\<rparr> (Some (4, 4)) =
     Some
       \<lparr>totalMemory = 1000,
         blocks_v = [Block 0 100 False, Block 100 100 False, Block 200 100 False,
                     Block 300 200 True, Block 500 100 False, Block 600 400 True],
         capacity = 8, storage = 4\<rparr>
   \<and> [Block 0 100 False, Block 100 100 False, Block 200 100 False, Block 300 200 True,
      Block 500 100 False, Block 600 400 True] ! 5 = Block 600 400 True
   \<and> [Block 0 100 False, Block 100 100 False, Block 200 100 False, Block 300 200 True,
      Block 500 100 False, Block 600 400 True] ! 4 = Block 500 100 False
   \<and> deallocate_v
       \<lparr>totalMemory = 1000,
         blocks_v = [Block 0 100 False, Block 100 100 False, Block 200 100 False,
                     Block 300 200 True, Block 500 100 False, Block 600 400 True],
         capacity = 8, storage = 4\<rparr> (Some (4, 5)) =
     Some
       \<lparr>totalMemory = 1000,
         blocks_v = [Block 0 100 False, Block 100 100 False, Block 200 100 False,
                     Block 300 200 True, Block 500 100 False, Block 600 400 True],
         capacity = 8, storage = 4\<rparr>"
  by (simp add: allocate_v_def FirstFitAllocator_v_def push_back_def grow_def deallocate_v_def
      deallocate_read_def mergeAdjacentFreeBlocks_def merge_from_loop)

section \<open>C8: releasing a handle that is not allocated\<close>

lemma free_update_id: "free b \<Longrightarrow> b\<lparr>free := True\<rparr> = b"
  by (cases b) simp

lemma merge_next_noop:
  "no_free_pair True (map snd rest) \<Longrightarrow> merge_next (n, b) rest = (n, b) # rest"
  by (cases rest) auto

lemma deallocate_after_noop:
  assumes "no_free_pair p (pb # map snd rest)"
    and "map_of rest h = None \<or> (\<exists>b. map_of rest h = Some b \<and> free b)"
  shows "deallocate_after h (pa, pb) rest = (pa, pb) # rest"
  using assms
proof (induction rest arbitrary: p pa pb)
  case Nil
  then show ?case by simp
next
  case (Cons x xs)
  obtain n b where x: "x = (n, b)" by (cases x)
  show ?case
  proof (cases "n = h")
    case True
    with Cons.prems(2) x have fb: "free b" by simp
    with Cons.prems(1) x have "\<not> free pb" and "no_free_pair True (map snd xs)" by auto
    with True x fb show ?thesis by (simp add: free_update_id merge_next_noop)
  next
    case False
    with Cons.prems x have "map_of xs h = None \<or> (\<exists>b. map_of xs h = Some b \<and> free b)"
      and "no_free_pair (free pb) (b # map snd xs)" by auto
    from Cons.IH [OF this(2,1)] False x show ?thesis by simp
  qed
qed

lemma deallocate_scan_noop:
  assumes "no_free_pair False (map snd bs)"
    and "map_of bs h = None \<or> (\<exists>b. map_of bs h = Some b \<and> free b)"
  shows "deallocate_scan h bs = bs"
proof (cases bs)
  case Nil
  then show ?thesis by simp
next
  case (Cons x xs)
  obtain n b where x: "x = (n, b)" by (cases x)
  show ?thesis
  proof (cases "n = h")
    case True
    with assms(2) Cons x have fb: "free b" by simp
    with assms(1) Cons x have "no_free_pair True (map snd xs)" by simp
    with True Cons x fb show ?thesis by (simp add: free_update_id merge_next_noop)
  next
    case False
    with assms Cons x have "map_of xs h = None \<or> (\<exists>b. map_of xs h = Some b \<and> free b)"
      and "no_free_pair False (b # map snd xs)" by auto
    from deallocate_after_noop [OF this(2,1)] False Cons x show ?thesis by simp
  qed
qed

lemma mark_free_noop:
  "\<forall>b \<in> set bs. start b = st \<and> size_b b = sz \<longrightarrow> free b \<Longrightarrow> mark_free st sz bs = bs"
  by (induction bs) (auto simp: free_update_id)

lemma deallocate_read_noop:
  assumes T: "0 < T" and inv: "vec_inv T (blocks_v v)"
    and f: "\<forall>b \<in> set (blocks_v v). start b = st \<and> size_b b = sz \<longrightarrow> free b"
  shows "deallocate_read v st sz = Some (v\<lparr>blocks_v := sort_key start (blocks_v v)\<rparr>)"
proof -
  from inv obtain ys where m: "mset ys = mset (blocks_v v)" and c: "chain 0 ys T"
    and n: "no_free_pair False ys" by (auto simp: vec_inv_def)
  from vec_inv_sorted [OF m c] have so: "sort_key start (blocks_v v) = ys" .
  from c T have "ys \<noteq> []" by auto
  with m have "blocks_v v \<noteq> []" by auto
  with so merge_loop_id [OF n] mark_free_noop [OF f] show ?thesis
    by (simp add: deallocate_read_def mergeAdjacentFreeBlocks_def merge_from_loop)
qed

lemma merge_next_covers:
  assumes "chain a (b1 # map snd xs) e" and "free b1"
  shows "\<exists>b' \<in> set (map snd (merge_next (n, b1) xs)).
           free b' \<and> start b' = start b1 \<and> size_b b1 \<le> size_b b'"
proof (cases xs)
  case Nil
  with assms show ?thesis by simp
next
  case (Cons x ys)
  obtain m c where x: "x = (m, c)" by (cases x)
  with assms Cons show ?thesis by auto
qed

lemma deallocate_after_covers:
  assumes "chain a (pb # map snd rest) e" and "map_of rest h = Some b"
  shows "\<exists>b' \<in> set (map snd (deallocate_after h (pa, pb) rest)). covers b' b"
  using assms
proof (induction rest arbitrary: a pa pb)
  case Nil
  then show ?case by simp
next
  case (Cons x xs)
  obtain n c where x: "x = (n, c)" by (cases x)
  show ?case
  proof (cases "n = h")
    case True
    with Cons.prems x have cb: "c = b" by simp
    show ?thesis
    proof (cases "free pb")
      case True
      let ?pb = "pb\<lparr>size_b := size_b pb + size_b b\<rparr>"
      have "chain a (?pb # map snd xs) e" using Cons.prems x cb by (simp add: add.assoc)
      from merge_next_covers [OF this, of pa] True obtain b' where
        "b' \<in> set (map snd (merge_next (pa, ?pb) xs))" "free b'" "start b' = start ?pb"
        "size_b ?pb \<le> size_b b'" by auto
      moreover have "start pb + size_b pb = start b" "0 < size_b pb" using Cons.prems x cb by auto
      ultimately have "b' \<in> set (map snd (merge_next (pa, ?pb) xs)) \<and> covers b' b"
        by (simp add: covers_def)
      with \<open>n = h\<close> True x cb show ?thesis by auto
    next
      case False
      let ?b = "b\<lparr>free := True\<rparr>"
      have "chain (a + size_b pb) (?b # map snd xs) e" using Cons.prems x cb by simp
      from merge_next_covers [OF this, of n] obtain b' where
        "b' \<in> set (map snd (merge_next (n, ?b) xs))" "free b'" "start b' = start ?b"
        "size_b ?b \<le> size_b b'" by auto
      then have "b' \<in> set (map snd (merge_next (n, ?b) xs)) \<and> covers b' b"
        by (simp add: covers_def)
      with \<open>n = h\<close> False x cb show ?thesis by auto
    qed
  next
    case False
    with Cons.prems x have "map_of xs h = Some b" and "chain (a + size_b pb) (c # map snd xs) e"
      by auto
    from Cons.IH [OF this(2,1), of n] False x show ?thesis by auto
  qed
qed

lemma deallocate_scan_covers:
  assumes "chain a (map snd bs) e" and "map_of bs h = Some b"
  shows "\<exists>b' \<in> set (map snd (deallocate_scan h bs)). covers b' b"
proof (cases bs)
  case Nil
  with assms show ?thesis by simp
next
  case (Cons x xs)
  obtain n c where x: "x = (n, c)" by (cases x)
  show ?thesis
  proof (cases "n = h")
    case True
    with assms Cons x have cb: "c = b" by simp
    let ?b = "b\<lparr>free := True\<rparr>"
    have "chain a (?b # map snd xs) e" using assms Cons x cb by simp
    from merge_next_covers [OF this, of n] obtain b' where
      "b' \<in> set (map snd (merge_next (n, ?b) xs))" "free b'" "start b' = start ?b"
      "size_b ?b \<le> size_b b'" by auto
    then have "b' \<in> set (map snd (merge_next (n, ?b) xs)) \<and> covers b' b"
      by (simp add: covers_def)
    with True Cons x cb show ?thesis by auto
  next
    case False
    with assms Cons x have "map_of xs h = Some b" and "chain a (c # map snd xs) e" by auto
    from deallocate_after_covers [OF this(2,1), of n] False Cons x show ?thesis by auto
  qed
qed

lemma example_reuse_run:
  "allocate
       \<lparr>blocks = [(0, Block 0 1000 True)],
         totalSize = 1000, next_node = 1, heap = reusing_heap\<rparr> 100 =
     (Some 0,
       \<lparr>blocks = [(0, Block 0 100 False), (1, Block 100 900 True)],
         totalSize = 1000, next_node = 2, heap = reusing_heap\<rparr>)"
  "allocate
       \<lparr>blocks = [(0, Block 0 100 False), (1, Block 100 900 True)],
         totalSize = 1000, next_node = 2, heap = reusing_heap\<rparr> 100 =
     (Some 1,
       \<lparr>blocks = [(0, Block 0 100 False), (1, Block 100 100 False), (2, Block 200 800 True)],
         totalSize = 1000, next_node = 3, heap = reusing_heap\<rparr>)"
  "deallocate
       \<lparr>blocks = [(0, Block 0 100 False), (1, Block 100 100 False), (2, Block 200 800 True)],
         totalSize = 1000, next_node = 3, heap = reusing_heap\<rparr> (Some 0) =
       \<lparr>blocks = [(0, Block 0 100 True), (1, Block 100 100 False), (2, Block 200 800 True)],
         totalSize = 1000, next_node = 3, heap = reusing_heap\<rparr>"
  "deallocate
       \<lparr>blocks = [(0, Block 0 100 True), (1, Block 100 100 False), (2, Block 200 800 True)],
         totalSize = 1000, next_node = 3, heap = reusing_heap\<rparr> (Some 1) =
       \<lparr>blocks = [(0, Block 0 1000 True)],
         totalSize = 1000, next_node = 3, heap = reusing_heap\<rparr>"
  "allocate
       \<lparr>blocks = [(0, Block 0 1000 True)],
         totalSize = 1000, next_node = 3, heap = reusing_heap\<rparr> 100 =
     (Some 0,
       \<lparr>blocks = [(0, Block 0 100 False), (2, Block 100 900 True)],
         totalSize = 1000, next_node = 4, heap = reusing_heap\<rparr>)"
  "allocate
       \<lparr>blocks = [(0, Block 0 100 False), (2, Block 100 900 True)],
         totalSize = 1000, next_node = 4, heap = reusing_heap\<rparr> 100 =
     (Some 2,
       \<lparr>blocks = [(0, Block 0 100 False), (2, Block 100 100 False), (1, Block 200 800 True)],
         totalSize = 1000, next_node = 5, heap = reusing_heap\<rparr>)"
  "allocate
       \<lparr>blocks = [(0, Block 0 100 False), (2, Block 100 100 False), (1, Block 200 800 True)],
         totalSize = 1000, next_node = 5, heap = reusing_heap\<rparr> 100 =
     (Some 1,
       \<lparr>blocks = [(0, Block 0 100 False), (2, Block 100 100 False), (1, Block 200 100 False), (3, Block 300 700 True)],
         totalSize = 1000, next_node = 6, heap = reusing_heap\<rparr>)"
  by (simp_all add: allocate_def deallocate_def reusing_heap_def)

lemma example_reuse_reachable6:
  "reachable 1000
       \<lparr>blocks = [(0, Block 0 100 False), (2, Block 100 100 False), (1, Block 200 800 True)],
         totalSize = 1000, next_node = 5, heap = reusing_heap\<rparr>"
proof -
  have r0: "reachable 1000
       \<lparr>blocks = [(0, Block 0 1000 True)],
         totalSize = 1000, next_node = 1, heap = reusing_heap\<rparr>"
    using reachable_init [of 1000 reusing_heap] by (simp add: FirstFitAllocator_def MemoryAllocator_def reusing_heap_def)
  have r1: "reachable 1000
       \<lparr>blocks = [(0, Block 0 100 False), (1, Block 100 900 True)],
         totalSize = 1000, next_node = 2, heap = reusing_heap\<rparr>"
    by (rule reachable_allocate [OF r0 _ _ example_reuse_run(1)]) (simp_all add: reusing_heap_def)
  have r2: "reachable 1000
       \<lparr>blocks = [(0, Block 0 100 False), (1, Block 100 100 False), (2, Block 200 800 True)],
         totalSize = 1000, next_node = 3, heap = reusing_heap\<rparr>"
    by (rule reachable_allocate [OF r1 _ _ example_reuse_run(2)]) (simp_all add: reusing_heap_def)
  have r3: "reachable 1000
       \<lparr>blocks = [(0, Block 0 100 True), (1, Block 100 100 False), (2, Block 200 800 True)],
         totalSize = 1000, next_node = 3, heap = reusing_heap\<rparr>"
    using reachable_deallocate [OF r2, of "Some 0"] example_reuse_run(3) by simp
  have r4: "reachable 1000
       \<lparr>blocks = [(0, Block 0 1000 True)],
         totalSize = 1000, next_node = 3, heap = reusing_heap\<rparr>"
    using reachable_deallocate [OF r3, of "Some 1"] example_reuse_run(4) by simp
  have r5: "reachable 1000
       \<lparr>blocks = [(0, Block 0 100 False), (2, Block 100 900 True)],
         totalSize = 1000, next_node = 4, heap = reusing_heap\<rparr>"
    by (rule reachable_allocate [OF r4 _ _ example_reuse_run(5)]) (simp_all add: reusing_heap_def)
  show ?thesis
    by (rule reachable_allocate [OF r5 _ _ example_reuse_run(6)]) (simp_all add: reusing_heap_def)
qed

lemma example_reuse_reachable7:
  "reachable 1000
       \<lparr>blocks = [(0, Block 0 100 False), (2, Block 100 100 False), (1, Block 200 100 False), (3, Block 300 700 True)],
         totalSize = 1000, next_node = 6, heap = reusing_heap\<rparr>"
proof -
  have r0: "reachable 1000
       \<lparr>blocks = [(0, Block 0 1000 True)],
         totalSize = 1000, next_node = 1, heap = reusing_heap\<rparr>"
    using reachable_init [of 1000 reusing_heap] by (simp add: FirstFitAllocator_def MemoryAllocator_def reusing_heap_def)
  have r1: "reachable 1000
       \<lparr>blocks = [(0, Block 0 100 False), (1, Block 100 900 True)],
         totalSize = 1000, next_node = 2, heap = reusing_heap\<rparr>"
    by (rule reachable_allocate [OF r0 _ _ example_reuse_run(1)]) (simp_all add: reusing_heap_def)
  have r2: "reachable 1000
       \<lparr>blocks = [(0, Block 0 100 False), (1, Block 100 100 False), (2, Block 200 800 True)],
         totalSize = 1000, next_node = 3, heap = reusing_heap\<rparr>"
    by (rule reachable_allocate [OF r1 _ _ example_reuse_run(2)]) (simp_all add: reusing_heap_def)
  have r3: "reachable 1000
       \<lparr>blocks = [(0, Block 0 100 True), (1, Block 100 100 False), (2, Block 200 800 True)],
         totalSize = 1000, next_node = 3, heap = reusing_heap\<rparr>"
    using reachable_deallocate [OF r2, of "Some 0"] example_reuse_run(3) by simp
  have r4: "reachable 1000
       \<lparr>blocks = [(0, Block 0 1000 True)],
         totalSize = 1000, next_node = 3, heap = reusing_heap\<rparr>"
    using reachable_deallocate [OF r3, of "Some 1"] example_reuse_run(4) by simp
  have r5: "reachable 1000
       \<lparr>blocks = [(0, Block 0 100 False), (2, Block 100 900 True)],
         totalSize = 1000, next_node = 4, heap = reusing_heap\<rparr>"
    by (rule reachable_allocate [OF r4 _ _ example_reuse_run(5)]) (simp_all add: reusing_heap_def)
  have r6: "reachable 1000
       \<lparr>blocks = [(0, Block 0 100 False), (2, Block 100 100 False), (1, Block 200 800 True)],
         totalSize = 1000, next_node = 5, heap = reusing_heap\<rparr>"
    by (rule reachable_allocate [OF r5 _ _ example_reuse_run(6)]) (simp_all add: reusing_heap_def)
  show ?thesis
    by (rule reachable_allocate [OF r6 _ _ example_reuse_run(7)]) (simp_all add: reusing_heap_def)
qed

lemma example_vec2_run:
  "allocate_v
       \<lparr>totalMemory = 1000,
         blocks_v = [Block 0 1000 True],
         capacity = 1, storage = 1\<rparr> 100 =
     (Some (2, 0),
       \<lparr>totalMemory = 1000,
         blocks_v = [Block 0 100 False, Block 100 900 True],
         capacity = 2, storage = 2\<rparr>)"
  "allocate_v
       \<lparr>totalMemory = 1000,
         blocks_v = [Block 0 100 False, Block 100 900 True],
         capacity = 2, storage = 2\<rparr> 100 =
     (Some (3, 1),
       \<lparr>totalMemory = 1000,
         blocks_v = [Block 0 100 False, Block 100 100 False, Block 200 800 True],
         capacity = 4, storage = 3\<rparr>)"
  "allocate_v
       \<lparr>totalMemory = 1000,
         blocks_v = [Block 0 100 False, Block 100 100 False, Block 200 800 True],
         capacity = 4, storage = 3\<rparr> 100 =
     (Some (3, 2),
       \<lparr>totalMemory = 1000,
         blocks_v = [Block 0 100 False, Block 100 100 False, Block 200 100 False,
                     Block 300 700 True],
         capacity = 4, storage = 3\<rparr>)"
  "allocate_v
       \<lparr>totalMemory = 1000,
         blocks_v = [Block 0 100 False, Block 100 100 False, Block 200 100 False,
                     Block 300 700 True],
         capacity = 4, storage = 3\<rparr> 100 =
     (Some (4, 3),
       \<lparr>totalMemory = 1000,
         blocks_v = [Block 0 100 False, Block 100 100 False, Block 200 100 False,
                     Block 300 100 False, Block 400 600 True],
         capacity = 8, storage = 4\<rparr>)"
  "allocate_v
       \<lparr>totalMemory = 1000,
         blocks_v = [Block 0 100 False, Block 100 100 False, Block 200 100 False,
                     Block 300 100 False, Block 400 600 True],
         capacity = 8, storage = 4\<rparr> 100 =
     (Some (4, 4),
       \<lparr>totalMemory = 1000,
         blocks_v = [Block 0 100 False, Block 100 100 False, Block 200 100 False,
                     Block 300 100 False, Block 400 100 False, Block 500 500 True],
         capacity = 8, storage = 4\<rparr>)"
  "allocate_v
       \<lparr>totalMemory = 1000,
         blocks_v = [Block 0 100 False, Block 100 100 False, Block 200 100 False,
                     Block 300 100 False, Block 400 100 False, Block 500 500 True],
         capacity = 8, storage = 4\<rparr> 100 =
     (Some (4, 5),
       \<lparr>totalMemory = 1000,
         blocks_v = [Block 0 100 False, Block 100 100 False, Block 200 100 False,
                     Block 300 100 False, Block 400 100 False, Block 500 100 False,
                     Block 600 400 True],
         capacity = 8, storage = 4\<rparr>)"
  "deallocate_v
       \<lparr>totalMemory = 1000,
         blocks_v = [Block 0 100 False, Block 100 100 False, Block 200 100 False,
                     Block 300 100 False, Block 400 100 False, Block 500 100 False,
                     Block 600 400 True],
         capacity = 8, storage = 4\<rparr> (Some (4, 3)) =
     Some
       \<lparr>totalMemory = 1000,
         blocks_v = [Block 0 100 False, Block 100 100 False, Block 200 100 False,
                     Block 300 100 True, Block 400 100 False, Block 500 100 False,
                     Block 600 400 True],
         capacity = 8, storage = 4\<rparr>"
  "deallocate_v
       \<lparr>totalMemory = 1000,
         blocks_v = [Block 0 100 False, Block 100 100 False, Block 200 100 False,
                     Block 300 100 True, Block 400 100 False, Block 500 100 False,
                     Block 600 400 True],
         capacity = 8, storage = 4\<rparr> (Some (4, 5)) =
     Some
       \<lparr>totalMemory = 1000,
         blocks_v = [Block 0 100 False, Block 100 100 False, Block 200 100 False,
                     Block 300 100 True, Block 400 100 False, Block 500 500 True],
         capacity = 8, storage = 4\<rparr>"
  "allocate_v
       \<lparr>totalMemory = 1000,
         blocks_v = [Block 0 100 False, Block 100 100 False, Block 200 100 False,
                     Block 300 100 True, Block 400 100 False, Block 500 500 True],
         capacity = 8, storage = 4\<rparr> 50 =
     (Some (4, 3),
       \<lparr>totalMemory = 1000,
         blocks_v = [Block 0 100 False, Block 100 100 False, Block 200 100 False,
                     Block 300 50 False, Block 400 100 False, Block 500 500 True,
                     Block 350 50 True],
         capacity = 8, storage = 4\<rparr>)"
  by (simp_all add: allocate_v_def FirstFitAllocator_v_def push_back_def grow_def deallocate_v_def
      deallocate_read_def mergeAdjacentFreeBlocks_def merge_from_loop)

lemma example_vec2_reachable:
  "reachable_v 1000
       \<lparr>totalMemory = 1000,
         blocks_v = [Block 0 100 False, Block 100 100 False, Block 200 100 False,
                     Block 300 50 False, Block 400 100 False, Block 500 500 True,
                     Block 350 50 True],
         capacity = 8, storage = 4\<rparr>"
proof -
  have r0: "reachable_v 1000
       \<lparr>totalMemory = 1000,
         blocks_v = [Block 0 1000 True],
         capacity = 1, storage = 1\<rparr>"
    using reachable_v_init [of 1000] by (simp add: FirstFitAllocator_v_def push_back_def grow_def)
  have r1: "reachable_v 1000
       \<lparr>totalMemory = 1000,
         blocks_v = [Block 0 100 False, Block 100 900 True],
         capacity = 2, storage = 2\<rparr>"
    by (rule reachable_v_allocate [OF r0 _ _ example_vec2_run(1)]) (simp_all add: INT_MAX_def)
  have r2: "reachable_v 1000
       \<lparr>totalMemory = 1000,
         blocks_v = [Block 0 100 False, Block 100 100 False, Block 200 800 True],
         capacity = 4, storage = 3\<rparr>"
    by (rule reachable_v_allocate [OF r1 _ _ example_vec2_run(2)]) (simp_all add: INT_MAX_def)
  have r3: "reachable_v 1000
       \<lparr>totalMemory = 1000,
         blocks_v = [Block 0 100 False, Block 100 100 False, Block 200 100 False,
                     Block 300 700 True],
         capacity = 4, storage = 3\<rparr>"
    by (rule reachable_v_allocate [OF r2 _ _ example_vec2_run(3)]) (simp_all add: INT_MAX_def)
  have r4: "reachable_v 1000
       \<lparr>totalMemory = 1000,
         blocks_v = [Block 0 100 False, Block 100 100 False, Block 200 100 False,
                     Block 300 100 False, Block 400 600 True],
         capacity = 8, storage = 4\<rparr>"
    by (rule reachable_v_allocate [OF r3 _ _ example_vec2_run(4)]) (simp_all add: INT_MAX_def)
  have r5: "reachable_v 1000
       \<lparr>totalMemory = 1000,
         blocks_v = [Block 0 100 False, Block 100 100 False, Block 200 100 False,
                     Block 300 100 False, Block 400 100 False, Block 500 500 True],
         capacity = 8, storage = 4\<rparr>"
    by (rule reachable_v_allocate [OF r4 _ _ example_vec2_run(5)]) (simp_all add: INT_MAX_def)
  have r6: "reachable_v 1000
       \<lparr>totalMemory = 1000,
         blocks_v = [Block 0 100 False, Block 100 100 False, Block 200 100 False,
                     Block 300 100 False, Block 400 100 False, Block 500 100 False,
                     Block 600 400 True],
         capacity = 8, storage = 4\<rparr>"
    by (rule reachable_v_allocate [OF r5 _ _ example_vec2_run(6)]) (simp_all add: INT_MAX_def)
  have r7: "reachable_v 1000
       \<lparr>totalMemory = 1000,
         blocks_v = [Block 0 100 False, Block 100 100 False, Block 200 100 False,
                     Block 300 100 True, Block 400 100 False, Block 500 100 False,
                     Block 600 400 True],
         capacity = 8, storage = 4\<rparr>"
    by (rule reachable_v_deallocate [OF r6 example_vec2_run(7)])
  have r8: "reachable_v 1000
       \<lparr>totalMemory = 1000,
         blocks_v = [Block 0 100 False, Block 100 100 False, Block 200 100 False,
                     Block 300 100 True, Block 400 100 False, Block 500 500 True],
         capacity = 8, storage = 4\<rparr>"
    by (rule reachable_v_deallocate [OF r7 example_vec2_run(8)])
  show ?thesis
    by (rule reachable_v_allocate [OF r8 _ _ example_vec2_run(9)]) (simp_all add: INT_MAX_def)
qed

text \<open>
  C8 as stated fails in both allocators, which check nothing before they change the
  state. In main.cpp (the conjuncts on \<open>allocate\<close> and \<open>deallocate\<close>): two blocks are allocated and released, so
  that the node of the second handle (address 1) is merged away and erased; three more
  blocks are allocated, and the heap gives address 1 to the node that becomes the block
  of the fifth allocation. Releasing the second handle again, stale by now, is not a
  no-op: it releases the block of the fifth allocation. In FirstFitAllocator.h (the
  conjuncts on \<open>allocate_v\<close> and \<open>deallocate_v\<close>; every handle used points into the present
  storage): six blocks of 100 are
  allocated, the fourth and the sixth are released and 50 are allocated, which leaves the
  vector out of address order. Slot 5, the sixth handle, holds a free block; releasing
  it again is not a no-op: the vector is sorted, and slot 4, the handle of the block at
  address 400 that is still allocated, now holds the free block at address 350.
\<close>

theorem release_unallocated_counterexample:
  "FirstFitAllocator reusing_heap 1000 =
       \<lparr>blocks = [(0, Block 0 1000 True)],
         totalSize = 1000, next_node = 1, heap = reusing_heap\<rparr>
   \<and> allocate
       \<lparr>blocks = [(0, Block 0 1000 True)],
         totalSize = 1000, next_node = 1, heap = reusing_heap\<rparr> 100 =
     (Some 0,
       \<lparr>blocks = [(0, Block 0 100 False), (1, Block 100 900 True)],
         totalSize = 1000, next_node = 2, heap = reusing_heap\<rparr>)
   \<and> allocate
       \<lparr>blocks = [(0, Block 0 100 False), (1, Block 100 900 True)],
         totalSize = 1000, next_node = 2, heap = reusing_heap\<rparr> 100 =
     (Some 1,
       \<lparr>blocks = [(0, Block 0 100 False), (1, Block 100 100 False), (2, Block 200 800 True)],
         totalSize = 1000, next_node = 3, heap = reusing_heap\<rparr>)
   \<and> deallocate
       \<lparr>blocks = [(0, Block 0 100 False), (1, Block 100 100 False), (2, Block 200 800 True)],
         totalSize = 1000, next_node = 3, heap = reusing_heap\<rparr> (Some 0) =
       \<lparr>blocks = [(0, Block 0 100 True), (1, Block 100 100 False), (2, Block 200 800 True)],
         totalSize = 1000, next_node = 3, heap = reusing_heap\<rparr>
   \<and> deallocate
       \<lparr>blocks = [(0, Block 0 100 True), (1, Block 100 100 False), (2, Block 200 800 True)],
         totalSize = 1000, next_node = 3, heap = reusing_heap\<rparr> (Some 1) =
       \<lparr>blocks = [(0, Block 0 1000 True)],
         totalSize = 1000, next_node = 3, heap = reusing_heap\<rparr>
   \<and> allocate
       \<lparr>blocks = [(0, Block 0 1000 True)],
         totalSize = 1000, next_node = 3, heap = reusing_heap\<rparr> 100 =
     (Some 0,
       \<lparr>blocks = [(0, Block 0 100 False), (2, Block 100 900 True)],
         totalSize = 1000, next_node = 4, heap = reusing_heap\<rparr>)
   \<and> allocate
       \<lparr>blocks = [(0, Block 0 100 False), (2, Block 100 900 True)],
         totalSize = 1000, next_node = 4, heap = reusing_heap\<rparr> 100 =
     (Some 2,
       \<lparr>blocks = [(0, Block 0 100 False), (2, Block 100 100 False), (1, Block 200 800 True)],
         totalSize = 1000, next_node = 5, heap = reusing_heap\<rparr>)
   \<and> allocate
       \<lparr>blocks = [(0, Block 0 100 False), (2, Block 100 100 False), (1, Block 200 800 True)],
         totalSize = 1000, next_node = 5, heap = reusing_heap\<rparr> 100 =
     (Some 1,
       \<lparr>blocks = [(0, Block 0 100 False), (2, Block 100 100 False), (1, Block 200 100 False), (3, Block 300 700 True)],
         totalSize = 1000, next_node = 6, heap = reusing_heap\<rparr>)
   \<and> deallocate
       \<lparr>blocks = [(0, Block 0 100 False), (2, Block 100 100 False), (1, Block 200 100 False), (3, Block 300 700 True)],
         totalSize = 1000, next_node = 6, heap = reusing_heap\<rparr> (Some 1) =
       \<lparr>blocks = [(0, Block 0 100 False), (2, Block 100 100 False), (1, Block 200 800 True)],
         totalSize = 1000, next_node = 6, heap = reusing_heap\<rparr>
   \<and> map_of [(0, Block 0 100 False), (2, Block 100 100 False), (1, Block 200 100 False),
       (3, Block 300 700 True)] (1::nat) = Some (Block 200 100 False)
   \<and> allocate_v (FirstFitAllocator_v 1000) 100 =
     (Some (2, 0),
       \<lparr>totalMemory = 1000,
         blocks_v = [Block 0 100 False, Block 100 900 True],
         capacity = 2, storage = 2\<rparr>)
   \<and> allocate_v
       \<lparr>totalMemory = 1000,
         blocks_v = [Block 0 100 False, Block 100 900 True],
         capacity = 2, storage = 2\<rparr> 100 =
     (Some (3, 1),
       \<lparr>totalMemory = 1000,
         blocks_v = [Block 0 100 False, Block 100 100 False, Block 200 800 True],
         capacity = 4, storage = 3\<rparr>)
   \<and> allocate_v
       \<lparr>totalMemory = 1000,
         blocks_v = [Block 0 100 False, Block 100 100 False, Block 200 800 True],
         capacity = 4, storage = 3\<rparr> 100 =
     (Some (3, 2),
       \<lparr>totalMemory = 1000,
         blocks_v = [Block 0 100 False, Block 100 100 False, Block 200 100 False,
                     Block 300 700 True],
         capacity = 4, storage = 3\<rparr>)
   \<and> allocate_v
       \<lparr>totalMemory = 1000,
         blocks_v = [Block 0 100 False, Block 100 100 False, Block 200 100 False,
                     Block 300 700 True],
         capacity = 4, storage = 3\<rparr> 100 =
     (Some (4, 3),
       \<lparr>totalMemory = 1000,
         blocks_v = [Block 0 100 False, Block 100 100 False, Block 200 100 False,
                     Block 300 100 False, Block 400 600 True],
         capacity = 8, storage = 4\<rparr>)
   \<and> allocate_v
       \<lparr>totalMemory = 1000,
         blocks_v = [Block 0 100 False, Block 100 100 False, Block 200 100 False,
                     Block 300 100 False, Block 400 600 True],
         capacity = 8, storage = 4\<rparr> 100 =
     (Some (4, 4),
       \<lparr>totalMemory = 1000,
         blocks_v = [Block 0 100 False, Block 100 100 False, Block 200 100 False,
                     Block 300 100 False, Block 400 100 False, Block 500 500 True],
         capacity = 8, storage = 4\<rparr>)
   \<and> allocate_v
       \<lparr>totalMemory = 1000,
         blocks_v = [Block 0 100 False, Block 100 100 False, Block 200 100 False,
                     Block 300 100 False, Block 400 100 False, Block 500 500 True],
         capacity = 8, storage = 4\<rparr> 100 =
     (Some (4, 5),
       \<lparr>totalMemory = 1000,
         blocks_v = [Block 0 100 False, Block 100 100 False, Block 200 100 False,
                     Block 300 100 False, Block 400 100 False, Block 500 100 False,
                     Block 600 400 True],
         capacity = 8, storage = 4\<rparr>)
   \<and> deallocate_v
       \<lparr>totalMemory = 1000,
         blocks_v = [Block 0 100 False, Block 100 100 False, Block 200 100 False,
                     Block 300 100 False, Block 400 100 False, Block 500 100 False,
                     Block 600 400 True],
         capacity = 8, storage = 4\<rparr> (Some (4, 3)) =
     Some
       \<lparr>totalMemory = 1000,
         blocks_v = [Block 0 100 False, Block 100 100 False, Block 200 100 False,
                     Block 300 100 True, Block 400 100 False, Block 500 100 False,
                     Block 600 400 True],
         capacity = 8, storage = 4\<rparr>
   \<and> deallocate_v
       \<lparr>totalMemory = 1000,
         blocks_v = [Block 0 100 False, Block 100 100 False, Block 200 100 False,
                     Block 300 100 True, Block 400 100 False, Block 500 100 False,
                     Block 600 400 True],
         capacity = 8, storage = 4\<rparr> (Some (4, 5)) =
     Some
       \<lparr>totalMemory = 1000,
         blocks_v = [Block 0 100 False, Block 100 100 False, Block 200 100 False,
                     Block 300 100 True, Block 400 100 False, Block 500 500 True],
         capacity = 8, storage = 4\<rparr>
   \<and> allocate_v
       \<lparr>totalMemory = 1000,
         blocks_v = [Block 0 100 False, Block 100 100 False, Block 200 100 False,
                     Block 300 100 True, Block 400 100 False, Block 500 500 True],
         capacity = 8, storage = 4\<rparr> 50 =
     (Some (4, 3),
       \<lparr>totalMemory = 1000,
         blocks_v = [Block 0 100 False, Block 100 100 False, Block 200 100 False,
                     Block 300 50 False, Block 400 100 False, Block 500 500 True,
                     Block 350 50 True],
         capacity = 8, storage = 4\<rparr>)
   \<and> [Block 0 100 False, Block 100 100 False, Block 200 100 False, Block 300 50 False,
      Block 400 100 False, Block 500 500 True, Block 350 50 True] ! 5 = Block 500 500 True
   \<and> deallocate_v
       \<lparr>totalMemory = 1000,
         blocks_v = [Block 0 100 False, Block 100 100 False, Block 200 100 False,
                     Block 300 50 False, Block 400 100 False, Block 500 500 True,
                     Block 350 50 True],
         capacity = 8, storage = 4\<rparr> (Some (4, 5)) =
     Some
       \<lparr>totalMemory = 1000,
         blocks_v = [Block 0 100 False, Block 100 100 False, Block 200 100 False,
                     Block 300 50 False, Block 350 50 True, Block 400 100 False,
                     Block 500 500 True],
         capacity = 8, storage = 4\<rparr>
   \<and> [Block 0 100 False, Block 100 100 False, Block 200 100 False, Block 300 50 False,
      Block 400 100 False, Block 500 500 True, Block 350 50 True] ! 4 = Block 400 100 False
   \<and> [Block 0 100 False, Block 100 100 False, Block 200 100 False, Block 300 50 False,
      Block 350 50 True, Block 400 100 False, Block 500 500 True] ! 4 = Block 350 50 True"
  by (simp add: FirstFitAllocator_def MemoryAllocator_def allocate_def deallocate_def reusing_heap_def
      allocate_v_def FirstFitAllocator_v_def push_back_def grow_def deallocate_v_def
      deallocate_read_def mergeAdjacentFreeBlocks_def merge_from_loop)

text \<open>
  C8 (as the code has it). Releasing a null handle changes nothing in either allocator.
  Neither allocator checks that the handle resolves to an allocated block. main.cpp
  looks for the node whose address is the handle: when no node of the list has that
  address, or the node that has it is free, the list is left untouched; whichever node
  has that address, also a node created later to which the heap gave the address of an
  erased one, is released with its block. FirstFitAllocator.h, for a handle into the
  present storage of the vector whose slot holds a free block, sorts the vector by
  start and changes nothing else. In every case the blocks in address order still
  partition the arena with no two free neighbours.
\<close>

theorem release_unallocated:
  "deallocate s None = s \<and> deallocate_v v None = Some v
   \<and> (0 < T \<longrightarrow> reachable T s \<longrightarrow>
        map_of (blocks s) n = None \<or> (\<exists>b. map_of (blocks s) n = Some b \<and> free b) \<longrightarrow>
        deallocate s (Some n) = s)
   \<and> (0 < T \<longrightarrow> reachable T s \<longrightarrow> map_of (blocks s) n = Some b \<longrightarrow>
        (\<exists>b' \<in> set (snapshot (deallocate s (Some n))). covers b' b))
   \<and> (0 < T \<longrightarrow> reachable T s \<longrightarrow>
        partitions T (snapshot (deallocate s h)) \<and> no_adjacent_free (snapshot (deallocate s h)))
   \<and> (0 < T \<longrightarrow> reachable_v T v \<longrightarrow> i < length (blocks_v v) \<longrightarrow> free (blocks_v v ! i) \<longrightarrow>
        deallocate_v v (Some (storage v, i)) = Some (v\<lparr>blocks_v := sort_key start (blocks_v v)\<rparr>))
   \<and> (0 < T \<longrightarrow> reachable_v T v \<longrightarrow> deallocate_v v h' = Some v' \<longrightarrow>
        partitions T (sort_key start (blocks_v v'))
        \<and> no_adjacent_free (sort_key start (blocks_v v')))"
proof (intro conjI impI)
  show "deallocate s None = s" by (simp add: deallocate_def)
  show "deallocate_v v None = Some v" by (simp add: deallocate_v_def)
next
  assume T: "0 < T" and r: "reachable T s"
    and h: "map_of (blocks s) n = None \<or> (\<exists>b. map_of (blocks s) n = Some b \<and> free b)"
  from reachable_arena_inv [OF T r] have "no_free_pair False (map snd (blocks s))"
    by (simp add: arena_inv_def snapshot_def)
  from deallocate_scan_noop [OF this h] show "deallocate s (Some n) = s"
    by (simp add: deallocate_def)
next
  assume T: "0 < T" and r: "reachable T s" and m: "map_of (blocks s) n = Some b"
  from reachable_arena_inv [OF T r] have "chain 0 (map snd (blocks s)) T"
    by (simp add: arena_inv_def snapshot_def)
  from deallocate_scan_covers [OF this m]
  show "\<exists>b' \<in> set (snapshot (deallocate s (Some n))). covers b' b"
    by (simp add: deallocate_def snapshot_def)
next
  assume T: "0 < T" and r: "reachable T s"
  from arena_inv_deallocate [OF reachable_arena_inv [OF T r], of h]
  have c: "chain 0 (snapshot (deallocate s h)) T"
    and n: "no_free_pair False (snapshot (deallocate s h))" by (simp_all add: arena_inv_def)
  from chain_partitions [OF T c] show "partitions T (snapshot (deallocate s h))" .
  from no_free_pair_adjacent [OF n] show "no_adjacent_free (snapshot (deallocate s h))" .
next
  assume T: "0 < T" and r: "reachable_v T v" and i: "i < length (blocks_v v)"
    and f: "free (blocks_v v ! i)"
  let ?b = "blocks_v v ! i"
  from reachable_v_inv [OF T r] have inv: "vec_inv T (blocks_v v)" .
  then obtain ys where m: "mset ys = mset (blocks_v v)" and c: "chain 0 ys T"
    by (auto simp: vec_inv_def)
  from chain_sorted [OF c] have "distinct (map start ys)" by simp
  then have "inj_on start (set ys)" by (simp add: distinct_map)
  moreover from m have "set ys = set (blocks_v v)" by (rule mset_eq_setD)
  ultimately have inj: "inj_on start (set (blocks_v v))" by simp
  have "\<forall>b \<in> set (blocks_v v). start b = start ?b \<and> size_b b = size_b ?b \<longrightarrow> free b"
  proof (intro ballI impI)
    fix b assume "b \<in> set (blocks_v v)" and "start b = start ?b \<and> size_b b = size_b ?b"
    with inj i have "b = ?b" by (auto dest: inj_onD)
    with f show "free b" by simp
  qed
  from deallocate_read_noop [OF T inv this] i
  show "deallocate_v v (Some (storage v, i)) = Some (v\<lparr>blocks_v := sort_key start (blocks_v v)\<rparr>)"
    by (simp add: deallocate_v_def)
next
  assume T: "0 < T" and r: "reachable_v T v" and d: "deallocate_v v h' = Some v'"
  from reachable_v_inv [OF T reachable_v_deallocate [OF r d]]
  obtain ys where m: "mset ys = mset (blocks_v v')" and c: "chain 0 ys T"
    and n: "no_free_pair False ys" by (auto simp: vec_inv_def)
  from vec_inv_sorted [OF m c] chain_partitions [OF T c]
  show "partitions T (sort_key start (blocks_v v'))" by simp
  from vec_inv_sorted [OF m c] no_free_pair_adjacent [OF n]
  show "no_adjacent_free (sort_key start (blocks_v v'))" by simp
qed

theorem release_unallocated_witness:
  "(0::int) < 1000
   \<and> reachable 1000
       \<lparr>blocks = [(0, Block 0 100 False), (2, Block 100 100 False), (1, Block 200 800 True)],
         totalSize = 1000, next_node = 5, heap = reusing_heap\<rparr>
   \<and> map_of [(0, Block 0 100 False), (2, Block 100 100 False), (1, Block 200 800 True)] (1::nat)
       = Some (Block 200 800 True)
   \<and> deallocate
       \<lparr>blocks = [(0, Block 0 100 False), (2, Block 100 100 False), (1, Block 200 800 True)],
         totalSize = 1000, next_node = 5, heap = reusing_heap\<rparr> (Some 1) =
       \<lparr>blocks = [(0, Block 0 100 False), (2, Block 100 100 False), (1, Block 200 800 True)],
         totalSize = 1000, next_node = 5, heap = reusing_heap\<rparr>
   \<and> reachable 1000
       \<lparr>blocks = [(0, Block 0 100 False), (2, Block 100 100 False), (1, Block 200 100 False), (3, Block 300 700 True)],
         totalSize = 1000, next_node = 6, heap = reusing_heap\<rparr>
   \<and> covers (Block 200 800 True) (Block 200 100 False)
   \<and> partitions 1000 [Block 0 100 False, Block 100 100 False, Block 200 800 True]
   \<and> reachable_v 1000
       \<lparr>totalMemory = 1000,
         blocks_v = [Block 0 100 False, Block 100 100 False, Block 200 100 False,
                     Block 300 50 False, Block 400 100 False, Block 500 500 True,
                     Block 350 50 True],
         capacity = 8, storage = 4\<rparr>
   \<and> deallocate_v
       \<lparr>totalMemory = 1000,
         blocks_v = [Block 0 100 False, Block 100 100 False, Block 200 100 False,
                     Block 300 50 False, Block 400 100 False, Block 500 500 True,
                     Block 350 50 True],
         capacity = 8, storage = 4\<rparr> (Some (4, 5)) =
     Some
       \<lparr>totalMemory = 1000,
         blocks_v = [Block 0 100 False, Block 100 100 False, Block 200 100 False,
                     Block 300 50 False, Block 350 50 True, Block 400 100 False,
                     Block 500 500 True],
         capacity = 8, storage = 4\<rparr>
   \<and> partitions 1000
       [Block 0 100 False, Block 100 100 False, Block 200 100 False, Block 300 50 False,
        Block 350 50 True, Block 400 100 False, Block 500 500 True]"
  using release_unallocated [where T = 1000 and n = 1 and i = 5 and b = "Block 200 800 True"
      and h = "Some 1" and h' = "Some (4, 5)"
      and s = "\<lparr>blocks = [(0, Block 0 100 False), (2, Block 100 100 False), (1, Block 200 800 True)],
            totalSize = 1000, next_node = 5, heap = reusing_heap\<rparr>"
      and v = "\<lparr>totalMemory = 1000,
            blocks_v = [Block 0 100 False, Block 100 100 False, Block 200 100 False,
                        Block 300 50 False, Block 400 100 False, Block 500 500 True,
                        Block 350 50 True],
            capacity = 8, storage = 4\<rparr>"
      and v' = "\<lparr>totalMemory = 1000,
            blocks_v = [Block 0 100 False, Block 100 100 False, Block 200 100 False,
                        Block 300 50 False, Block 350 50 True, Block 400 100 False,
                        Block 500 500 True],
            capacity = 8, storage = 4\<rparr>"]
    release_unallocated [where T = 1000 and n = 1 and b = "Block 200 100 False" and h = "Some 1"
      and s = "\<lparr>blocks = [(0, Block 0 100 False), (2, Block 100 100 False), (1, Block 200 100 False), (3, Block 300 700 True)],
            totalSize = 1000, next_node = 6, heap = reusing_heap\<rparr>"]
    example_reuse_reachable6 example_reuse_reachable7 example_vec2_reachable
  by (simp add: snapshot_def deallocate_def covers_def deallocate_v_def deallocate_read_def
      mergeAdjacentFreeBlocks_def merge_from_loop)

section \<open>Schedulers\<close>

subsection \<open>A block allocated and released at once\<close>

lemma allocate_scan_handle:
  "allocate_scan fresh sz bs = Some (h, bs') \<Longrightarrow> h \<in> fst ` set bs"
proof (induction bs arbitrary: bs')
  case Nil
  then show ?case by simp
next
  case (Cons x xs)
  obtain n b where x: "x = (n, b)" by (cases x)
  show ?case
  proof (cases "free b \<and> sz \<le> size_b b")
    case True
    with Cons.prems x show ?thesis by (auto simp: Let_def)
  next
    case False
    with Cons.prems x obtain r where r: "allocate_scan fresh sz xs = Some (h, r)" by auto
    from Cons.IH [OF r] show ?thesis by simp
  qed
qed

lemma split_merge_id:
  "free b \<Longrightarrow> b\<lparr>free := False, size_b := sz\<rparr>\<lparr>free := True\<rparr>\<lparr>size_b := sz + (size_b b - sz)\<rparr> = b"
  "free b \<Longrightarrow> size_b b = sz \<Longrightarrow> b\<lparr>free := False, size_b := sz\<rparr>\<lparr>free := True\<rparr> = b"
  by (cases b; simp)+

lemma release_fresh_allocation:
  assumes fb: "free b" and fit: "sz \<le> size_b b" and n: "no_free_pair True (map snd xs)"
  shows "merge_next (a, b\<lparr>free := False, size_b := sz\<rparr>\<lparr>free := True\<rparr>)
           (if 0 < size_b b - sz
            then (fresh, Block (start b + sz) (size_b b - sz) True) # xs else xs)
         = (a, b) # xs"
proof (cases "0 < size_b b - sz")
  case True
  with fb show ?thesis by (simp add: split_merge_id)
next
  case False
  with fit have "size_b b = sz" by simp
  with False fb n show ?thesis by (simp add: split_merge_id merge_next_noop)
qed

lemma roundtrip_after:
  assumes "allocate_scan fresh sz rest = Some (h, rest')"
    and "no_free_pair (free pb) (map snd rest)" and "distinct (map fst rest)"
  shows "deallocate_after h (pa, pb) rest' = (pa, pb) # rest"
  using assms
proof (induction rest arbitrary: pa pb rest')
  case Nil
  then show ?case by simp
next
  case (Cons x xs)
  obtain n b where x: "x = (n, b)" by (cases x)
  show ?case
  proof (cases "free b \<and> sz \<le> size_b b")
    case True
    with Cons.prems(2) x have np: "\<not> free pb" and nx: "no_free_pair True (map snd xs)" by auto
    from True Cons.prems(1) x have h: "h = n"
      and r: "rest' = (n, b\<lparr>free := False, size_b := sz\<rparr>)
           # (if 0 < size_b b - sz
              then (fresh, Block (start b + sz) (size_b b - sz) True) # xs else xs)"
      by (auto simp: Let_def)
    from True nx have "merge_next (n, b\<lparr>free := False, size_b := sz\<rparr>\<lparr>free := True\<rparr>)
           (if 0 < size_b b - sz
            then (fresh, Block (start b + sz) (size_b b - sz) True) # xs else xs)
         = (n, b) # xs"
      by (intro release_fresh_allocation) simp_all
    with h r np x show ?thesis by simp
  next
    case False
    with Cons.prems(1) x obtain r where r: "allocate_scan fresh sz xs = Some (h, r)"
      and rest': "rest' = (n, b) # r" by auto
    from allocate_scan_handle [OF r] Cons.prems(3) x have "n \<noteq> h" by auto
    moreover from Cons.prems(2,3) x have "no_free_pair (free b) (map snd xs)" "distinct (map fst xs)"
      by simp_all
    from Cons.IH [OF r this, of n] have "deallocate_after h (n, b) r = (n, b) # xs" .
    ultimately show ?thesis using rest' x by simp
  qed
qed

lemma roundtrip_scan:
  assumes "allocate_scan fresh sz bs = Some (h, bs')"
    and "no_free_pair False (map snd bs)" and "distinct (map fst bs)"
  shows "deallocate_scan h bs' = bs"
proof (cases bs)
  case Nil
  with assms show ?thesis by simp
next
  case (Cons x xs)
  obtain n b where x: "x = (n, b)" by (cases x)
  show ?thesis
  proof (cases "free b \<and> sz \<le> size_b b")
    case True
    with assms(2) Cons x have nx: "no_free_pair True (map snd xs)" by auto
    from True assms(1) Cons x have h: "h = n"
      and r: "bs' = (n, b\<lparr>free := False, size_b := sz\<rparr>)
           # (if 0 < size_b b - sz
              then (fresh, Block (start b + sz) (size_b b - sz) True) # xs else xs)"
      by (auto simp: Let_def)
    from True nx have "merge_next (n, b\<lparr>free := False, size_b := sz\<rparr>\<lparr>free := True\<rparr>)
           (if 0 < size_b b - sz
            then (fresh, Block (start b + sz) (size_b b - sz) True) # xs else xs)
         = (n, b) # xs"
      by (intro release_fresh_allocation) simp_all
    with h r Cons x show ?thesis by simp
  next
    case False
    with assms(1) Cons x obtain r where r: "allocate_scan fresh sz xs = Some (h, r)"
      and bs': "bs' = (n, b) # r" by auto
    from allocate_scan_handle [OF r] assms(3) Cons x have "n \<noteq> h" by auto
    moreover from assms(2,3) Cons x have "no_free_pair (free b) (map snd xs)" "distinct (map fst xs)"
      by simp_all
    from roundtrip_after [OF r this, of n] have "deallocate_after h (n, b) r = (n, b) # xs" .
    ultimately show ?thesis using bs' Cons x by simp
  qed
qed

lemma allocate_deallocate_roundtrip:
  assumes inv: "arena_inv T s" and al: "allocate s sz = (Some h, s1)"
  shows "blocks (deallocate s1 (Some h)) = blocks s"
    and "arena_inv T (deallocate s1 (Some h))"
proof -
  from al obtain bs where sc: "allocate_scan (heap s (next_node s)) sz (blocks s) = Some (h, bs)"
    and s1: "s1 = s\<lparr>blocks := bs, next_node := Suc (next_node s)\<rparr>"
    by (auto simp: allocate_def split: option.splits)
  from inv have "no_free_pair False (map snd (blocks s))" "distinct (map fst (blocks s))"
    by (simp_all add: arena_inv_def snapshot_def)
  from roundtrip_scan [OF sc this] s1 show b: "blocks (deallocate s1 (Some h)) = blocks s"
    by (simp add: deallocate_def)
  with inv show "arena_inv T (deallocate s1 (Some h))"
    by (simp add: arena_inv_def snapshot_def)
qed

lemma allocate_None_unchanged: "allocate s sz = (None, s1) \<Longrightarrow> s1 = s"
  by (auto simp: allocate_def split: option.splits)

subsection \<open>The round-robin loop\<close>

lemma processTasks_empty:
  "tasks sch = [] \<Longrightarrow> processTasks sch allocator log = Some (sch, allocator, log)"
  by (subst processTasks.simps) simp

lemma processTasks_failed:
  "tasks sch = task # rest \<Longrightarrow> allocate allocator (memoryRequired task) = (None, allocator1) \<Longrightarrow>
   processTasks sch allocator log =
   processTasks (sch\<lparr>tasks := rest\<rparr>) allocator1 (log @ [AllocFailed (task_id task)])"
  by (subst processTasks.simps) simp

lemma processTasks_slice:
  "tasks sch = task # rest \<Longrightarrow> allocate allocator (memoryRequired task) = (Some block, allocator1) \<Longrightarrow>
   processTasks sch allocator log =
   processTasks
     (sch\<lparr>tasks :=
        if 0 < executionTime task - min (executionTime task) (quantum sch)
        then rest @ [task\<lparr>executionTime := executionTime task - min (executionTime task) (quantum sch)\<rparr>]
        else rest\<rparr>)
     (deallocate allocator1 (Some block))
     (log @ [Slice (task_id task) (min (executionTime task) (quantum sch))
              (executionTime task - min (executionTime task) (quantum sch))])"
  by (subst processTasks.simps) (simp add: Let_def)

lemma processTasks_returns:
  assumes q: "0 < quantum sch"
  shows "\<exists>allocator' log'. processTasks sch allocator log = Some (sch\<lparr>tasks := []\<rparr>, allocator', log')"
  using q
proof (induction "remaining_work (tasks sch)" arbitrary: sch allocator log rule: less_induct)
  case less
  show ?case
  proof (cases "tasks sch")
    case Nil
    then have "sch\<lparr>tasks := []\<rparr> = sch" by simp
    with Nil show ?thesis by (simp add: processTasks_empty)
  next
    case (Cons task rest)
    obtain h allocator1 where al: "allocate allocator (memoryRequired task) = (h, allocator1)"
      by (cases "allocate allocator (memoryRequired task)")
    show ?thesis
    proof (cases h)
      case None
      let ?sch = "sch\<lparr>tasks := rest\<rparr>"
      have "remaining_work (tasks ?sch) < remaining_work (tasks sch)"
        using Cons by (simp add: remaining_work_def)
      moreover have "0 < quantum ?sch" using less.prems by simp
      ultimately obtain a' l' where
        "processTasks ?sch allocator1 (log @ [AllocFailed (task_id task)]) = Some (?sch\<lparr>tasks := []\<rparr>, a', l')"
        using less.hyps by blast
      with processTasks_failed [OF Cons, of allocator allocator1 log] al None
      show ?thesis by simp
    next
      case (Some block)
      let ?rem = "executionTime task - min (executionTime task) (quantum sch)"
      let ?queue = "if 0 < ?rem then rest @ [task\<lparr>executionTime := ?rem\<rparr>] else rest"
      let ?sch = "sch\<lparr>tasks := ?queue\<rparr>"
      have "remaining_work ?queue < remaining_work (task # rest)"
        using less.prems by (auto simp: remaining_work_def min_def)
      then have "remaining_work (tasks ?sch) < remaining_work (tasks sch)"
        using Cons by simp
      moreover have "0 < quantum ?sch" using less.prems by simp
      ultimately obtain a' l' where
        "processTasks ?sch (deallocate allocator1 (Some block))
           (log @ [Slice (task_id task) (min (executionTime task) (quantum sch)) ?rem])
         = Some (?sch\<lparr>tasks := []\<rparr>, a', l')"
        using less.hyps by blast
      with processTasks_slice [OF Cons, of allocator block allocator1 log] al Some
      show ?thesis by simp
    qed
  qed
qed

lemma processTasks_queue_empty:
  assumes "processTasks sch allocator log = Some r"
  shows "tasks (fst r) = []"
proof (rule processTasks.raw_induct
    [where P = "\<lambda>sch allocator log r. tasks (fst r) = []", OF _ assms], goal_cases)
  case (1 processTasks sch allocator log r)
  then show ?case
    by (auto simp: Let_def split: list.splits prod.splits option.splits if_splits)
qed

lemma processTasks_blocks_restored:
  assumes "processTasks sch allocator log = Some r"
  shows "arena_inv T allocator \<longrightarrow> blocks (fst (snd r)) = blocks allocator"
proof (rule processTasks.raw_induct
    [where P = "\<lambda>sch allocator log r. arena_inv T allocator \<longrightarrow> blocks (fst (snd r)) = blocks allocator",
      OF _ assms], goal_cases)
  case (1 processTasks sch allocator log r)
  have ih: "processTasks s a l = Some y \<Longrightarrow> arena_inv T a \<Longrightarrow> blocks (fst (snd y)) = blocks a"
    for s a l y using 1(1) by blast
  note body = 1(2)
  show ?case
  proof (intro impI)
  assume inv: "arena_inv T allocator"
  show "blocks (fst (snd r)) = blocks allocator"
  proof (cases "tasks sch")
    case Nil
    with body show ?thesis by auto
  next
    case (Cons task rest)
    obtain h allocator1 where al: "allocate allocator (memoryRequired task) = (h, allocator1)"
      by (cases "allocate allocator (memoryRequired task)")
    show ?thesis
    proof (cases h)
      case None
      with al have "allocator1 = allocator" using allocate_None_unchanged by blast
      with body Cons al None inv ih [of _ allocator _ r] show ?thesis by auto
    next
      case (Some block)
      from allocate_deallocate_roundtrip [OF inv] al Some
      have "blocks (deallocate allocator1 (Some block)) = blocks allocator"
        and "arena_inv T (deallocate allocator1 (Some block))" by simp_all
      with ih [of _ "deallocate allocator1 (Some block)" _ r] body Cons al Some
      show ?thesis by (auto simp: Let_def split: if_splits)
    qed
  qed
  qed
qed

subsection \<open>C6: one slice of the round-robin scheduler\<close>

lemma rr_example_run:
  "processTasks
     \<lparr>tasks = [\<lparr>task_id = 1, memoryRequired = 200, executionTime = 300, priority = 1\<rparr>,
               \<lparr>task_id = 2, memoryRequired = 250, executionTime = 400, priority = 1\<rparr>],
      quantum = 150\<rparr> (FirstFitAllocator id 1000) [] =
   Some (\<lparr>tasks = [], quantum = 150\<rparr>,
         \<lparr>blocks = [(0, Block 0 1000 True)], totalSize = 1000, next_node = 6, heap = id\<rparr>,
         [Slice 1 150 150, Slice 2 150 250, Slice 1 150 0, Slice 2 150 100, Slice 2 100 0])"
  by (simp add: processTasks.simps allocate_def deallocate_def FirstFitAllocator_def
      MemoryAllocator_def)

text \<open>
  The example of C6 fails as stated. With execution times 300 and 400 and quantum 150
  the run has five slices, served to the tasks 1, 2, 1, 2, 2: task 1 is complete after
  its second slice (the third of the run), so the fifth slice is not a slice of task 1
  but the last slice of task 2, of length 100.
\<close>

theorem round_robin_example_counterexample:
  "processTasks
     \<lparr>tasks = [\<lparr>task_id = 1, memoryRequired = 200, executionTime = 300, priority = 1\<rparr>,
               \<lparr>task_id = 2, memoryRequired = 250, executionTime = 400, priority = 1\<rparr>],
      quantum = 150\<rparr> (FirstFitAllocator id 1000) [] =
   Some (\<lparr>tasks = [], quantum = 150\<rparr>,
         \<lparr>blocks = [(0, Block 0 1000 True)], totalSize = 1000, next_node = 6, heap = id\<rparr>,
         [Slice 1 150 150, Slice 2 150 250, Slice 1 150 0, Slice 2 150 100, Slice 2 100 0])
   \<and> map event_task
        [Slice 1 150 150, Slice 2 150 250, Slice 1 150 0, Slice 2 150 100, Slice 2 100 0]
       = [1, 2, 1, 2, 2]
   \<and> map event_task
        [Slice 1 150 150, Slice 2 150 250, Slice 1 150 0, Slice 2 150 100, Slice 2 100 0]
       \<noteq> [1, 2, 1, 2, 1, 2]
   \<and> [Slice 1 150 150, Slice 2 150 250, Slice 1 150 0, Slice 2 150 100, Slice 2 100 0] ! 2
       = Slice 1 150 0
   \<and> [Slice 1 150 150, Slice 2 150 250, Slice 1 150 0, Slice 2 150 100, Slice 2 100 0] ! 4
       = Slice 2 100 0"
  using rr_example_run by simp

text \<open>
  C6 (as the code has it). When the allocation for the task at the front of the queue
  succeeds, the task runs for \<open>min executionTime quantum\<close>, its execution time is
  reduced by exactly that amount and does not become negative, the block is released
  within the same turn of the loop (in a reachable arena this restores the blocks as
  they were before the allocation), and the loop goes on with the task at the back of
  the queue if and only if its remaining time is positive. With execution times 300 and
  400 and quantum 150 the slices go to the tasks 1, 2, 1, 2, 2: task 1 ends with its
  second slice, having run 300, and task 2 with its third, of length 100, having run 400.
\<close>

theorem round_robin_slice:
  "(tasks sch = task # rest \<longrightarrow>
    allocate allocator (memoryRequired task) = (Some block, allocator1) \<longrightarrow>
      (let execTime = min (executionTime task) (quantum sch);
           remaining = executionTime task - execTime
       in processTasks sch allocator log =
            processTasks
              (sch\<lparr>tasks := if 0 < remaining then rest @ [task\<lparr>executionTime := remaining\<rparr>]
                              else rest\<rparr>)
              (deallocate allocator1 (Some block))
              (log @ [Slice (task_id task) execTime remaining])
          \<and> 0 \<le> remaining
          \<and> (0 < T \<longrightarrow> reachable T allocator \<longrightarrow>
                blocks (deallocate allocator1 (Some block)) = blocks allocator)))
   \<and> processTasks
       \<lparr>tasks = [\<lparr>task_id = 1, memoryRequired = 200, executionTime = 300, priority = 1\<rparr>,
                 \<lparr>task_id = 2, memoryRequired = 250, executionTime = 400, priority = 1\<rparr>],
        quantum = 150\<rparr> (FirstFitAllocator id 1000) [] =
     Some (\<lparr>tasks = [], quantum = 150\<rparr>,
           \<lparr>blocks = [(0, Block 0 1000 True)], totalSize = 1000, next_node = 6, heap = id\<rparr>,
           [Slice 1 150 150, Slice 2 150 250, Slice 1 150 0, Slice 2 150 100, Slice 2 100 0])"
proof (intro conjI impI)
  assume t: "tasks sch = task # rest"
    and al: "allocate allocator (memoryRequired task) = (Some block, allocator1)"
  have "0 < T \<longrightarrow> reachable T allocator \<longrightarrow>
      blocks (deallocate allocator1 (Some block)) = blocks allocator"
    using allocate_deallocate_roundtrip(1) [OF reachable_arena_inv al] by blast
  with processTasks_slice [OF t al, of log]
  show "let execTime = min (executionTime task) (quantum sch);
           remaining = executionTime task - execTime
       in processTasks sch allocator log =
            processTasks
              (sch\<lparr>tasks := if 0 < remaining then rest @ [task\<lparr>executionTime := remaining\<rparr>]
                              else rest\<rparr>)
              (deallocate allocator1 (Some block))
              (log @ [Slice (task_id task) execTime remaining])
          \<and> 0 \<le> remaining
          \<and> (0 < T \<longrightarrow> reachable T allocator \<longrightarrow>
                blocks (deallocate allocator1 (Some block)) = blocks allocator)"
    by (simp add: Let_def)
next
  show "processTasks
       \<lparr>tasks = [\<lparr>task_id = 1, memoryRequired = 200, executionTime = 300, priority = 1\<rparr>,
                 \<lparr>task_id = 2, memoryRequired = 250, executionTime = 400, priority = 1\<rparr>],
        quantum = 150\<rparr> (FirstFitAllocator id 1000) [] =
     Some (\<lparr>tasks = [], quantum = 150\<rparr>,
           \<lparr>blocks = [(0, Block 0 1000 True)], totalSize = 1000, next_node = 6, heap = id\<rparr>,
           [Slice 1 150 150, Slice 2 150 250, Slice 1 150 0, Slice 2 150 100, Slice 2 100 0])"
    by (rule rr_example_run)
qed

theorem round_robin_slice_witness:
  "allocate (FirstFitAllocator id 1000) 200 =
     (Some 0, \<lparr>blocks = [(0, Block 0 200 False), (1, Block 200 800 True)],
               totalSize = 1000, next_node = 2, heap = id\<rparr>)
   \<and> reachable 1000 (FirstFitAllocator id 1000)
   \<and> processTasks
       \<lparr>tasks = [\<lparr>task_id = 1, memoryRequired = 200, executionTime = 300, priority = 1\<rparr>,
                 \<lparr>task_id = 2, memoryRequired = 250, executionTime = 400, priority = 1\<rparr>],
        quantum = 150\<rparr> (FirstFitAllocator id 1000) [] =
     processTasks
       \<lparr>tasks = [\<lparr>task_id = 2, memoryRequired = 250, executionTime = 400, priority = 1\<rparr>,
                 \<lparr>task_id = 1, memoryRequired = 200, executionTime = 150, priority = 1\<rparr>],
        quantum = 150\<rparr>
       \<lparr>blocks = [(0, Block 0 1000 True)], totalSize = 1000, next_node = 2, heap = id\<rparr>
       [Slice 1 150 150]
   \<and> blocks (deallocate \<lparr>blocks = [(0, Block 0 200 False), (1, Block 200 800 True)],
               totalSize = 1000, next_node = 2, heap = id\<rparr> (Some 0)) = blocks (FirstFitAllocator id 1000)"
proof -
  have al: "allocate (FirstFitAllocator id 1000) 200 =
     (Some 0, \<lparr>blocks = [(0, Block 0 200 False), (1, Block 200 800 True)],
               totalSize = 1000, next_node = 2, heap = id\<rparr>)"
    by (simp add: allocate_def FirstFitAllocator_def MemoryAllocator_def)
  have d: "deallocate \<lparr>blocks = [(0, Block 0 200 False), (Suc 0, Block 200 800 True)],
               totalSize = 1000, next_node = 2, heap = id\<rparr> (Some 0)
      = \<lparr>blocks = [(0, Block 0 1000 True)], totalSize = 1000, next_node = 2, heap = id\<rparr>"
    by (simp add: deallocate_def)
  from round_robin_slice [where T = 1000 and allocator = "FirstFitAllocator id 1000" and block = 0
      and sch = "\<lparr>tasks = [\<lparr>task_id = 1, memoryRequired = 200, executionTime = 300, priority = 1\<rparr>,
                 \<lparr>task_id = 2, memoryRequired = 250, executionTime = 400, priority = 1\<rparr>],
        quantum = 150\<rparr>"
      and task = "\<lparr>task_id = 1, memoryRequired = 200, executionTime = 300, priority = 1\<rparr>"
      and rest = "[\<lparr>task_id = 2, memoryRequired = 250, executionTime = 400, priority = 1\<rparr>]"
      and ?allocator1.0 = "\<lparr>blocks = [(0, Block 0 200 False), (1, Block 200 800 True)],
               totalSize = 1000, next_node = 2, heap = id\<rparr>" and log = "[]"]
    al reachable_init [of 1000 id]
  show ?thesis by (simp add: Let_def d)
qed

subsection \<open>C7 and C10: the shortest-job-first scheduler\<close>

lemma serve_log:
  "map event_task (snd (serve st task)) = map event_task (snd st) @ [task_id task]"
  by (auto simp: serve_def split: prod.splits option.splits)

lemma foldl_serve_log:
  "map event_task (snd (foldl serve st ts)) = map event_task (snd st) @ map task_id ts"
  by (induction ts arbitrary: st) (simp_all add: serve_log)

lemma std_sort_result_shorter:
  "std_sort_result shorter ts ys \<Longrightarrow> mset ys = mset ts \<and> sorted (map executionTime ys)"
  by (simp add: std_sort_result_def shorter_def sorted_wrt_map not_less)

lemma sorted_pair:
  assumes m: "mset ys = mset [x, y]" and s: "sorted (map executionTime ys)"
    and lt: "executionTime x < executionTime y"
  shows "ys = [x, y]"
proof -
  from m have "length ys = 2" using mset_eq_length by fastforce
  then obtain u v where ys: "ys = [u, v]"
    by (cases ys; cases "tl ys") auto
  with m have "(u = x \<and> v = y) \<or> (u = y \<and> v = x)"
    by (auto simp: add_eq_conv_ex)
  with s lt ys show ?thesis by auto
qed

lemma gnu_sort_equal_tasks:
  "gnu_sort shorter (map equal_task [1, 2, 3, 4, 5, 6, 7, 8, 9, 10, 11, 12, 13, 14, 15, 16, 17])
   = Some (map equal_task [9, 17, 16, 15, 14, 13, 12, 11, 10, 1, 8, 7, 6, 5, 4, 3, 2])"
  by code_simp

lemma equal_tasks_permuted:
  "mset (map equal_task [9, 17, 16, 15, 14, 13, 12, 11, 10, 1, 8, 7, 6, 5, 4, 3, 2])
   = mset (map equal_task [1, 2, 3, 4, 5, 6, 7, 8, 9, 10, 11, 12, 13, 14, 15, 16, 17])"
proof -
  have "sort_key task_id (map equal_task [9, 17, 16, 15, 14, 13, 12, 11, 10, 1, 8, 7, 6, 5, 4, 3, 2])
      = sort_key task_id (map equal_task [1, 2, 3, 4, 5, 6, 7, 8, 9, 10, 11, 12, 13, 14, 15, 16, 17])"
    by code_simp
  then show ?thesis by (metis mset_sort)
qed

text \<open>
  C7 as stated fails on ties. \<^verbatim>\<open>std::sort\<close> is not a stable sort: with the sort of GNU
  libstdc++, seventeen tasks of equal execution time, added in the order 1, ..., 17, are
  left in the order 9, 17, 16, ..., 10, 1, 8, 7, ..., 2 and served in that order (the
  median step swaps the first task with the ninth, and the partition step reverses the
  rest), so task 9 is served before the eight tasks that were added before it.
\<close>

theorem sjf_tie_counterexample:
  "processTasks_gnu (map equal_task [1, 2, 3, 4, 5, 6, 7, 8, 9, 10, 11, 12, 13, 14, 15, 16, 17])
     (FirstFitAllocator id 1000)
   = Some (map equal_task [9, 17, 16, 15, 14, 13, 12, 11, 10, 1, 8, 7, 6, 5, 4, 3, 2],
       \<lparr>blocks = [(0, Block 0 1000 True)], totalSize = 1000, next_node = 18, heap = id\<rparr>,
       [Completed 9, Completed 17, Completed 16, Completed 15, Completed 14, Completed 13,
        Completed 12, Completed 11, Completed 10, Completed 1, Completed 8, Completed 7,
        Completed 6, Completed 5, Completed 4, Completed 3, Completed 2])
   \<and> processTasks_sjf (map equal_task [1, 2, 3, 4, 5, 6, 7, 8, 9, 10, 11, 12, 13, 14, 15, 16, 17])
       (FirstFitAllocator id 1000)
       (map equal_task [9, 17, 16, 15, 14, 13, 12, 11, 10, 1, 8, 7, 6, 5, 4, 3, 2],
        \<lparr>blocks = [(0, Block 0 1000 True)], totalSize = 1000, next_node = 18, heap = id\<rparr>,
        [Completed 9, Completed 17, Completed 16, Completed 15, Completed 14, Completed 13,
        Completed 12, Completed 11, Completed 10, Completed 1, Completed 8, Completed 7,
        Completed 6, Completed 5, Completed 4, Completed 3, Completed 2])
   \<and> map executionTime (map equal_task [1, 2, 3, 4, 5, 6, 7, 8, 9, 10, 11, 12, 13, 14, 15, 16, 17])
       = [300, 300, 300, 300, 300, 300, 300, 300, 300, 300, 300, 300, 300, 300, 300, 300, 300]
   \<and> map task_id (map equal_task [1, 2, 3, 4, 5, 6, 7, 8, 9, 10, 11, 12, 13, 14, 15, 16, 17])
       = [1, 2, 3, 4, 5, 6, 7, 8, 9, 10, 11, 12, 13, 14, 15, 16, 17]
   \<and> [9::int, 17, 16, 15, 14, 13, 12, 11, 10, 1, 8, 7, 6, 5, 4, 3, 2]
       \<noteq> [1, 2, 3, 4, 5, 6, 7, 8, 9, 10, 11, 12, 13, 14, 15, 16, 17]"
proof -
  have run: "processTasks_sorted (map equal_task [9, 17, 16, 15, 14, 13, 12, 11, 10, 1, 8, 7, 6, 5, 4, 3, 2])
      (FirstFitAllocator id 1000)
    = (map equal_task [9, 17, 16, 15, 14, 13, 12, 11, 10, 1, 8, 7, 6, 5, 4, 3, 2],
       \<lparr>blocks = [(0, Block 0 1000 True)], totalSize = 1000, next_node = 18, heap = id\<rparr>,
       [Completed 9, Completed 17, Completed 16, Completed 15, Completed 14, Completed 13,
        Completed 12, Completed 11, Completed 10, Completed 1, Completed 8, Completed 7,
        Completed 6, Completed 5, Completed 4, Completed 3, Completed 2])"
    by (simp add: processTasks_sorted_def serve_def allocate_def deallocate_def
        FirstFitAllocator_def MemoryAllocator_def equal_task_def)
  have so: "std_sort_result shorter (map equal_task [1, 2, 3, 4, 5, 6, 7, 8, 9, 10, 11, 12, 13, 14, 15, 16, 17])
      (map equal_task [9, 17, 16, 15, 14, 13, 12, 11, 10, 1, 8, 7, 6, 5, 4, 3, 2])"
    unfolding std_sort_result_def using equal_tasks_permuted
    by (simp add: shorter_def equal_task_def sorted_wrt_map)
  have c1: "processTasks_gnu (map equal_task [1, 2, 3, 4, 5, 6, 7, 8, 9, 10, 11, 12, 13, 14, 15, 16, 17])
     (FirstFitAllocator id 1000)
   = Some (map equal_task [9, 17, 16, 15, 14, 13, 12, 11, 10, 1, 8, 7, 6, 5, 4, 3, 2],
       \<lparr>blocks = [(0, Block 0 1000 True)], totalSize = 1000, next_node = 18, heap = id\<rparr>,
       [Completed 9, Completed 17, Completed 16, Completed 15, Completed 14, Completed 13,
        Completed 12, Completed 11, Completed 10, Completed 1, Completed 8, Completed 7,
        Completed 6, Completed 5, Completed 4, Completed 3, Completed 2])"
    unfolding processTasks_gnu_def gnu_sort_equal_tasks using run by simp
  have c2: "processTasks_sjf (map equal_task [1, 2, 3, 4, 5, 6, 7, 8, 9, 10, 11, 12, 13, 14, 15, 16, 17])
       (FirstFitAllocator id 1000)
       (map equal_task [9, 17, 16, 15, 14, 13, 12, 11, 10, 1, 8, 7, 6, 5, 4, 3, 2],
        \<lparr>blocks = [(0, Block 0 1000 True)], totalSize = 1000, next_node = 18, heap = id\<rparr>,
        [Completed 9, Completed 17, Completed 16, Completed 15, Completed 14, Completed 13,
        Completed 12, Completed 11, Completed 10, Completed 1, Completed 8, Completed 7,
        Completed 6, Completed 5, Completed 4, Completed 3, Completed 2])"
    unfolding processTasks_sjf_def using so run by simp
  have c3: "map executionTime (map equal_task [1, 2, 3, 4, 5, 6, 7, 8, 9, 10, 11, 12, 13, 14, 15, 16, 17])
       = [300, 300, 300, 300, 300, 300, 300, 300, 300, 300, 300, 300, 300, 300, 300, 300, 300]"
    by (simp add: equal_task_def)
  have c4: "map task_id (map equal_task [1, 2, 3, 4, 5, 6, 7, 8, 9, 10, 11, 12, 13, 14, 15, 16, 17])
       = [1, 2, 3, 4, 5, 6, 7, 8, 9, 10, 11, 12, 13, 14, 15, 16, 17]"
    by (simp add: equal_task_def)
  have c5: "[9::int, 17, 16, 15, 14, 13, 12, 11, 10, 1, 8, 7, 6, 5, 4, 3, 2]
       \<noteq> [1, 2, 3, 4, 5, 6, 7, 8, 9, 10, 11, 12, 13, 14, 15, 16, 17]"
    by simp
  from c1 c2 c3 c4 c5 show ?thesis by (intro conjI)
qed

text \<open>
  C7 (as the code has it). The tasks are served in ascending order of execution time,
  each task once, in the order in which \<^verbatim>\<open>std::sort\<close> leaves the vector; the order among
  tasks of equal execution time is whatever \<^verbatim>\<open>std::sort\<close> leaves, which the C++ standard
  does not fix and which need not be the order of insertion. Of two tasks with different execution times (such as 500 and 200) the
  shorter one is served first, in whichever order they were added.
\<close>

theorem sjf_order:
  "processTasks_sjf ts allocator result \<Longrightarrow>
     mset (fst result) = mset ts
     \<and> sorted (map executionTime (fst result))
     \<and> map event_task (snd (snd result)) = map task_id (fst result)
     \<and> (\<forall>x y. (ts = [x, y] \<or> ts = [y, x]) \<and> executionTime x < executionTime y
          \<longrightarrow> fst result = [x, y])"
proof -
  assume p: "processTasks_sjf ts allocator result"
  then have so: "std_sort_result shorter ts (fst result)"
    and r: "result = processTasks_sorted (fst result) allocator"
    by (simp_all add: processTasks_sjf_def)
  from std_sort_result_shorter [OF so] have m: "mset (fst result) = mset ts"
    and s: "sorted (map executionTime (fst result))" by simp_all
  have "snd (snd result) = snd (foldl serve (allocator, []) (fst result))"
    by (subst r) (simp add: processTasks_sorted_def)
  then have l: "map event_task (snd (snd result)) = map task_id (fst result)"
    by (simp add: foldl_serve_log)
  have "fst result = [x, y]"
    if "(ts = [x, y] \<or> ts = [y, x]) \<and> executionTime x < executionTime y" for x y
  proof -
    from that m have "mset (fst result) = mset [x, y]" by auto
    from sorted_pair [OF this s] that show ?thesis by simp
  qed
  with m s l show ?thesis by blast
qed

lemma sjf_example_run:
  "processTasks_sjf
     [\<lparr>task_id = 3, memoryRequired = 150, executionTime = 500, priority = 2\<rparr>,
      \<lparr>task_id = 4, memoryRequired = 100, executionTime = 200, priority = 2\<rparr>]
     (FirstFitAllocator id 1000)
     ([\<lparr>task_id = 4, memoryRequired = 100, executionTime = 200, priority = 2\<rparr>,
       \<lparr>task_id = 3, memoryRequired = 150, executionTime = 500, priority = 2\<rparr>],
      \<lparr>blocks = [(0, Block 0 1000 True)], totalSize = 1000, next_node = 3, heap = id\<rparr>,
      [Completed 4, Completed 3])"
  "processTasks_sjf
     [\<lparr>task_id = 4, memoryRequired = 100, executionTime = 200, priority = 2\<rparr>,
      \<lparr>task_id = 3, memoryRequired = 150, executionTime = 500, priority = 2\<rparr>]
     \<lparr>blocks = [(0, Block 0 1000 True)], totalSize = 1000, next_node = 3, heap = id\<rparr>
     ([\<lparr>task_id = 4, memoryRequired = 100, executionTime = 200, priority = 2\<rparr>,
       \<lparr>task_id = 3, memoryRequired = 150, executionTime = 500, priority = 2\<rparr>],
      \<lparr>blocks = [(0, Block 0 1000 True)], totalSize = 1000, next_node = 5, heap = id\<rparr>,
      [Completed 4, Completed 3])"
  by (simp_all add: processTasks_sjf_def std_sort_result_def shorter_def processTasks_sorted_def
      serve_def allocate_def deallocate_def FirstFitAllocator_def MemoryAllocator_def)

theorem sjf_order_witness:
  "processTasks_sjf
     [\<lparr>task_id = 3, memoryRequired = 150, executionTime = 500, priority = 2\<rparr>,
      \<lparr>task_id = 4, memoryRequired = 100, executionTime = 200, priority = 2\<rparr>]
     (FirstFitAllocator id 1000)
     ([\<lparr>task_id = 4, memoryRequired = 100, executionTime = 200, priority = 2\<rparr>,
       \<lparr>task_id = 3, memoryRequired = 150, executionTime = 500, priority = 2\<rparr>],
      \<lparr>blocks = [(0, Block 0 1000 True)], totalSize = 1000, next_node = 3, heap = id\<rparr>,
      [Completed 4, Completed 3])
   \<and> sorted (map executionTime
       [\<lparr>task_id = 4, memoryRequired = 100, executionTime = 200, priority = 2\<rparr>,
        \<lparr>task_id = 3, memoryRequired = 150, executionTime = 500, priority = 2\<rparr>])
   \<and> map event_task [Completed 4, Completed 3] = [4, 3]"
  using sjf_order [OF sjf_example_run(1)] sjf_example_run(1) by simp

text \<open>
  C10. \<^verbatim>\<open>SJFScheduler::processTasks\<close> removes nothing from its vector: after a call the
  vector holds the same tasks, sorted by execution time, every task having been visited
  once; a second call visits every task once more. The queue of the round-robin
  scheduler is empty whenever its \<^verbatim>\<open>processTasks\<close> returns, and it does return when the
  quantum is positive.
\<close>

theorem sjf_keeps_tasks:
  "(processTasks_sjf ts allocator r1 \<longrightarrow> processTasks_sjf (fst r1) (fst (snd r1)) r2 \<longrightarrow>
      mset (fst r1) = mset ts \<and> sorted (map executionTime (fst r1))
      \<and> map event_task (snd (snd r1)) = map task_id (fst r1)
      \<and> mset (fst r2) = mset ts \<and> sorted (map executionTime (fst r2))
      \<and> map event_task (snd (snd r2)) = map task_id (fst r2))
   \<and> (processTasks sch a log = Some r \<longrightarrow> tasks (fst r) = [])
   \<and> (0 < quantum sch \<longrightarrow> (\<exists>r. processTasks sch a log = Some r))"
proof (intro conjI impI)
  assume p1: "processTasks_sjf ts allocator r1" and p2: "processTasks_sjf (fst r1) (fst (snd r1)) r2"
  from p1 have s1: "std_sort_result shorter ts (fst r1)"
    and e1: "r1 = processTasks_sorted (fst r1) allocator" by (simp_all add: processTasks_sjf_def)
  from p2 have s2: "std_sort_result shorter (fst r1) (fst r2)"
    and e2: "r2 = processTasks_sorted (fst r2) (fst (snd r1))" by (simp_all add: processTasks_sjf_def)
  from std_sort_result_shorter [OF s1] show "mset (fst r1) = mset ts"
    and "sorted (map executionTime (fst r1))" by simp_all
  with std_sort_result_shorter [OF s2] show "mset (fst r2) = mset ts"
    and "sorted (map executionTime (fst r2))" by simp_all
  have "snd (snd r1) = snd (foldl serve (allocator, []) (fst r1))"
    by (subst e1) (simp add: processTasks_sorted_def)
  then show "map event_task (snd (snd r1)) = map task_id (fst r1)"
    by (simp add: foldl_serve_log)
  have "snd (snd r2) = snd (foldl serve (fst (snd r1), []) (fst r2))"
    by (subst e2) (simp add: processTasks_sorted_def)
  then show "map event_task (snd (snd r2)) = map task_id (fst r2)"
    by (simp add: foldl_serve_log)
next
  assume "processTasks sch a log = Some r"
  then show "tasks (fst r) = []" by (rule processTasks_queue_empty)
next
  assume "0 < quantum sch"
  from processTasks_returns [OF this, of a log] show "\<exists>r. processTasks sch a log = Some r"
    by blast
qed

theorem sjf_keeps_tasks_witness:
  "processTasks_sjf
     [\<lparr>task_id = 3, memoryRequired = 150, executionTime = 500, priority = 2\<rparr>,
      \<lparr>task_id = 4, memoryRequired = 100, executionTime = 200, priority = 2\<rparr>]
     (FirstFitAllocator id 1000)
     ([\<lparr>task_id = 4, memoryRequired = 100, executionTime = 200, priority = 2\<rparr>,
       \<lparr>task_id = 3, memoryRequired = 150, executionTime = 500, priority = 2\<rparr>],
      \<lparr>blocks = [(0, Block 0 1000 True)], totalSize = 1000, next_node = 3, heap = id\<rparr>,
      [Completed 4, Completed 3])
   \<and> processTasks_sjf
     [\<lparr>task_id = 4, memoryRequired = 100, executionTime = 200, priority = 2\<rparr>,
      \<lparr>task_id = 3, memoryRequired = 150, executionTime = 500, priority = 2\<rparr>]
     \<lparr>blocks = [(0, Block 0 1000 True)], totalSize = 1000, next_node = 3, heap = id\<rparr>
     ([\<lparr>task_id = 4, memoryRequired = 100, executionTime = 200, priority = 2\<rparr>,
       \<lparr>task_id = 3, memoryRequired = 150, executionTime = 500, priority = 2\<rparr>],
      \<lparr>blocks = [(0, Block 0 1000 True)], totalSize = 1000, next_node = 5, heap = id\<rparr>,
      [Completed 4, Completed 3])
   \<and> map event_task [Completed 4, Completed 3] = [4, 3]
   \<and> (0::int) < 150
   \<and> tasks (fst (\<lparr>tasks = [], quantum = 150\<rparr>,
         \<lparr>blocks = [(0, Block 0 1000 True)], totalSize = 1000, next_node = 6, heap = id\<rparr>,
         [Slice 1 150 150, Slice 2 150 250, Slice 1 150 0, Slice 2 150 100, Slice 2 100 0])) = []"
  using sjf_keeps_tasks [where
      ts = "[\<lparr>task_id = 3, memoryRequired = 150, executionTime = 500, priority = 2\<rparr>,
      \<lparr>task_id = 4, memoryRequired = 100, executionTime = 200, priority = 2\<rparr>]"
      and allocator = "FirstFitAllocator id 1000"
      and ?r1.0 = "([\<lparr>task_id = 4, memoryRequired = 100, executionTime = 200, priority = 2\<rparr>,
       \<lparr>task_id = 3, memoryRequired = 150, executionTime = 500, priority = 2\<rparr>],
      \<lparr>blocks = [(0, Block 0 1000 True)], totalSize = 1000, next_node = 3, heap = id\<rparr>,
      [Completed 4, Completed 3])"
      and ?r2.0 = "([\<lparr>task_id = 4, memoryRequired = 100, executionTime = 200, priority = 2\<rparr>,
       \<lparr>task_id = 3, memoryRequired = 150, executionTime = 500, priority = 2\<rparr>],
      \<lparr>blocks = [(0, Block 0 1000 True)], totalSize = 1000, next_node = 5, heap = id\<rparr>,
      [Completed 4, Completed 3])"
      and sch = "\<lparr>tasks = [\<lparr>task_id = 1, memoryRequired = 200, executionTime = 300, priority = 1\<rparr>,
               \<lparr>task_id = 2, memoryRequired = 250, executionTime = 400, priority = 1\<rparr>],
      quantum = 150\<rparr>"
      and a = "FirstFitAllocator id 1000" and log = "[]"
      and r = "(\<lparr>tasks = [], quantum = 150\<rparr>,
         \<lparr>blocks = [(0, Block 0 1000 True)], totalSize = 1000, next_node = 6, heap = id\<rparr>,
         [Slice 1 150 150, Slice 2 150 250, Slice 1 150 0, Slice 2 150 100, Slice 2 100 0])"]
    sjf_example_run rr_example_run
  by simp

section \<open>C9: construction\<close>

text \<open>
  C9 as stated fails: an arena of total size 0 or -5 is created, holding its one initial
  block, and a task that requires -1 is created as well.
\<close>

theorem nonpositive_arena_counterexample:
  "snapshot (FirstFitAllocator id 0) = [Block 0 0 True]
   \<and> snapshot (FirstFitAllocator id (- 5)) = [Block 0 (- 5) True]
   \<and> blocks_v (FirstFitAllocator_v 0) = [Block 0 0 True]
   \<and> memoryRequired (new_RealTimeTask 1 (- 1) 300 1) = - 1"
  by (simp add: FirstFitAllocator_def MemoryAllocator_def snapshot_def FirstFitAllocator_v_def
      push_back_def new_RealTimeTask_def)

text \<open>
  C9 (as the code has it). The constructors check nothing: an allocator constructed with
  any total size, positive or not, holds exactly one free block \<open>(0, total size)\<close>, and a
  task stores the memory requirement it is given.
\<close>

theorem constructor_accepts_any_size:
  "snapshot (FirstFitAllocator hp tot) = [Block 0 tot True]
   \<and> totalSize (FirstFitAllocator hp tot) = tot
   \<and> blocks_v (FirstFitAllocator_v tot) = [Block 0 tot True]
   \<and> totalMemory (FirstFitAllocator_v tot) = tot
   \<and> memoryRequired (new_RealTimeTask i mem execTime prio) = mem"
  by (simp add: FirstFitAllocator_def MemoryAllocator_def snapshot_def FirstFitAllocator_v_def
      push_back_def new_RealTimeTask_def)

end
